theory Spec2Isabelle
  imports Main
begin

section \<open>Python string operations used by the autobuilder\<close>

text \<open>
  Strings are lists of 8-bit characters. The operations below are the ones
  \<^verbatim>\<open>tools/ai_autobuilder.py\<close> applies to text: \<^verbatim>\<open>str.strip()\<close>,
  \<^verbatim>\<open>str.splitlines()\<close>, \<^verbatim>\<open>"\n".join(...)\<close>, \<^verbatim>\<open>" ".join(...)\<close>,
  the slice \<^verbatim>\<open>s[-n:]\<close> and the substring test \<^verbatim>\<open>a in b\<close>; with them the
  newline translation of a pipe read as text and \<^verbatim>\<open>json.dumps\<close> of a string.
\<close>

definition NL :: char where
  "NL = CHR 0x0A"

definition CR :: char where
  "CR = CHR 0x0D"

definition py_isspace :: "char \<Rightarrow> bool" where
  \<comment> \<open>\<^verbatim>\<open>str.isspace\<close> on the code points below 256: 9-13, 28-32, 133 and 160.\<close>
  "py_isspace c =
     (let n = (of_char c :: nat)
      in (9 \<le> n \<and> n \<le> 13) \<or> (28 \<le> n \<and> n \<le> 32) \<or> n = 133 \<or> n = 160)"

definition py_lstrip :: "string \<Rightarrow> string" where
  "py_lstrip s = dropWhile py_isspace s"

definition py_rstrip :: "string \<Rightarrow> string" where
  "py_rstrip s = rev (dropWhile py_isspace (rev s))"

definition py_strip :: "string \<Rightarrow> string" where
  "py_strip s = py_rstrip (py_lstrip s)"

definition is_linebreak :: "char \<Rightarrow> bool" where
  \<comment> \<open>The line boundaries of \<^verbatim>\<open>str.splitlines\<close> below 256, the carriage return apart:
      LF, VT, FF, FS, GS, RS and NEL.\<close>
  "is_linebreak c =
     (let n = (of_char c :: nat)
      in n = 10 \<or> n = 11 \<or> n = 12 \<or> n = 28 \<or> n = 29 \<or> n = 30 \<or> n = 133)"

fun splitlines_acc :: "string \<Rightarrow> string \<Rightarrow> string list" where
  "splitlines_acc cur [] = (if cur = [] then [] else [cur])"
| "splitlines_acc cur [c] =
     (if c = CR \<or> is_linebreak c then [cur] else [cur @ [c]])"
| "splitlines_acc cur (c # d # ds) =
     (if c = CR \<and> d = NL then cur # splitlines_acc [] ds
      else if c = CR \<or> is_linebreak c then cur # splitlines_acc [] (d # ds)
      else splitlines_acc (cur @ [c]) (d # ds))"

definition splitlines :: "string \<Rightarrow> string list" where
  \<comment> \<open>\<^verbatim>\<open>s.splitlines()\<close>: CR LF counts as one boundary, and a boundary at the very end
      opens no further (empty) line.\<close>
  "splitlines s = splitlines_acc [] s"

fun join_with :: "string \<Rightarrow> string list \<Rightarrow> string" where
  "join_with sep [] = []"
| "join_with sep [l] = l"
| "join_with sep (l # m # ls) = l @ sep @ join_with sep (m # ls)"

definition join_nl :: "string list \<Rightarrow> string" where
  "join_nl ls = join_with [NL] ls"

definition slice_from :: "int \<Rightarrow> 'a list \<Rightarrow> 'a list" where
  \<comment> \<open>\<^verbatim>\<open>xs[i:]\<close>: a negative \<open>i\<close> counts from the end and is clipped at the start.\<close>
  "slice_from i xs =
     (if i < 0 then drop (nat (max 0 (int (length xs) + i))) xs else drop (nat i) xs)"

fun starts_with :: "string \<Rightarrow> string \<Rightarrow> bool" where
  "starts_with [] s = True"
| "starts_with (p # ps) [] = False"
| "starts_with (p # ps) (c # cs) = (p = c \<and> starts_with ps cs)"

fun contains :: "string \<Rightarrow> string \<Rightarrow> bool" where
  \<comment> \<open>\<^verbatim>\<open>needle in hay\<close>\<close>
  "contains needle [] = (needle = [])"
| "contains needle (c # cs) = (starts_with needle (c # cs) \<or> contains needle cs)"

fun universal_newlines :: "string \<Rightarrow> string" where
  \<comment> \<open>reading a pipe in text mode (\<^verbatim>\<open>text=True\<close>): CR LF and a lone CR arrive as LF\<close>
  "universal_newlines [] = []"
| "universal_newlines [c] = (if c = CR then [NL] else [c])"
| "universal_newlines (c # d # ds) =
     (if c = CR \<and> d = NL then NL # universal_newlines ds
      else if c = CR then NL # universal_newlines (d # ds)
      else c # universal_newlines (d # ds))"

definition hex_digit :: "nat \<Rightarrow> char" where
  "hex_digit n = (if n < 10 then char_of (48 + n) else char_of (87 + n))"

definition json_escape :: "char \<Rightarrow> string" where
  \<comment> \<open>one character inside a JSON string, as \<^verbatim>\<open>json.dumps\<close> writes it with
      \<^verbatim>\<open>ensure_ascii\<close>: the quote, the backslash and everything outside
      \<^verbatim>\<open>' '..'~'\<close> is escaped\<close>
  "json_escape c =
     (let n = (of_char c :: nat) in
      if n = 34 then [CHR 0x5C, CHR 0x22]
      else if n = 92 then [CHR 0x5C, CHR 0x5C]
      else if n = 10 then [CHR 0x5C, CHR ''n'']
      else if n = 13 then [CHR 0x5C, CHR ''r'']
      else if n = 9 then [CHR 0x5C, CHR ''t'']
      else if n = 12 then [CHR 0x5C, CHR ''f'']
      else if n = 8 then [CHR 0x5C, CHR ''b'']
      else if n < 32 \<or> 126 < n then
        [CHR 0x5C, CHR ''u'', CHR ''0'', CHR ''0'', hex_digit (n div 16), hex_digit (n mod 16)]
      else [c])"

definition json_dumps :: "string \<Rightarrow> string" where
  \<comment> \<open>\<^verbatim>\<open>json.dumps(s)\<close> of a string\<close>
  "json_dumps s = [CHR 0x22] @ concat (map json_escape s) @ [CHR 0x22]"

section \<open>The diff extractor\<close>

text \<open>
  \<^verbatim>\<open>
  def extract_unified_diff(text):
      m = re.search(r'(?ms)^--- [^\n]+\n\+\+\+ [^\n]+\n', text)
      if not m:
          return None
      start = m.start()
      return text[start:].strip()
  \<close>
  The pattern is a sequence of four pieces, each of which can match in one way only:
  the literal \<^verbatim>\<open>--- \<close>, then \<^verbatim>\<open>[^\n]+\n\<close>, then the literal \<^verbatim>\<open>+++ \<close>, then
  \<^verbatim>\<open>[^\n]+\n\<close> again. A run \<^verbatim>\<open>[^\n]+\<close> that is followed by \<^verbatim>\<open>\n\<close> has to take every
  character up to the next newline, so backtracking never finds a second match at the
  same start. \<open>lit\<close> consumes a literal, \<open>line_rest\<close> consumes \<^verbatim>\<open>[^\n]+\n\<close>; both give
  the text that is left, or \<open>None\<close> when the piece does not match.
\<close>

fun lit :: "string \<Rightarrow> string \<Rightarrow> string option" where
  "lit [] s = Some s"
| "lit (p # ps) [] = None"
| "lit (p # ps) (c # cs) = (if p = c then lit ps cs else None)"

definition line_rest :: "string \<Rightarrow> string option" where
  "line_rest s =
     (if takeWhile (\<lambda>c. c \<noteq> NL) s = [] then None
      else case dropWhile (\<lambda>c. c \<noteq> NL) s of [] \<Rightarrow> None | _ # r \<Rightarrow> Some r)"

definition header_here :: "string \<Rightarrow> bool" where
  \<comment> \<open>the pattern without its anchor matches a prefix of \<open>s\<close>\<close>
  "header_here s =
     (case lit ''--- '' s of None \<Rightarrow> False
      | Some s1 \<Rightarrow> (case line_rest s1 of None \<Rightarrow> False
      | Some s2 \<Rightarrow> (case lit ''+++ '' s2 of None \<Rightarrow> False
      | Some s3 \<Rightarrow> line_rest s3 \<noteq> None)))"

fun re_search :: "bool \<Rightarrow> nat \<Rightarrow> string \<Rightarrow> nat option" where
  \<comment> \<open>\<^verbatim>\<open>re.search\<close> tries the start positions from left to right. \<open>bol\<close> says whether
      \<^verbatim>\<open>^\<close> holds at the current position: under \<^verbatim>\<open>(?m)\<close> that is at position 0 and
      right after every newline. The result is \<^verbatim>\<open>m.start()\<close>.\<close>
  "re_search bol i [] = None"
| "re_search bol i (c # cs) =
     (if bol \<and> header_here (c # cs) then Some i else re_search (c = NL) (Suc i) cs)"

definition extract_unified_diff :: "string \<Rightarrow> string option" where
  "extract_unified_diff text =
     (case re_search True 0 text of
        None \<Rightarrow> None
      | Some start \<Rightarrow> Some (py_strip (drop start text)))"

definition falsy :: "string option \<Rightarrow> bool" where
  \<comment> \<open>\<^verbatim>\<open>not diff\<close> in \<^verbatim>\<open>main\<close>: true of \<^verbatim>\<open>None\<close> and of the empty string\<close>
  "falsy d = (case d of None \<Rightarrow> True | Some t \<Rightarrow> t = [])"

subsection \<open>The extractor as the specification words it\<close>

text \<open>
  The specification speaks of lines: the first line of the form \<^verbatim>\<open>--- <token>\<close> whose
  next line has the form \<^verbatim>\<open>+++ <token>\<close>. Lines are the pieces between newlines, and a
  token is taken in the pattern's sense: at least one character.
\<close>

fun split_nl :: "string \<Rightarrow> string list" where
  "split_nl [] = [[]]"
| "split_nl (c # cs) =
     (if c = NL then [] # split_nl cs
      else (case split_nl cs of [] \<Rightarrow> [[c]] | l # ls \<Rightarrow> (c # l) # ls))"

definition minus_line :: "string \<Rightarrow> bool" where
  "minus_line l = (take 4 l = ''--- '' \<and> 4 < length l)"

definition plus_line :: "string \<Rightarrow> bool" where
  "plus_line l = (take 4 l = ''+++ '' \<and> 4 < length l)"

fun spec_scan :: "string list \<Rightarrow> string option" where
  "spec_scan (l # m # ls) =
     (if minus_line l \<and> plus_line m then Some (py_strip (join_nl (l # m # ls)))
      else spec_scan (m # ls))"
| "spec_scan ls = None"

definition spec_extract :: "string \<Rightarrow> string option" where
  \<comment> \<open>the extractor exactly as the specification describes it\<close>
  "spec_extract text = spec_scan (split_nl text)"

fun spec_scan_terminated :: "string list \<Rightarrow> string option" where
  "spec_scan_terminated (l # m # ls) =
     (if minus_line l \<and> plus_line m \<and> ls \<noteq> [] then Some (py_strip (join_nl (l # m # ls)))
      else spec_scan_terminated (m # ls))"
| "spec_scan_terminated ls = None"

definition spec_extract_terminated :: "string \<Rightarrow> string option" where
  \<comment> \<open>the same, where the \<^verbatim>\<open>+++\<close> line has to end in a newline: in the list of pieces
      it is then not the last one\<close>
  "spec_extract_terminated text = spec_scan_terminated (split_nl text)"

section \<open>Exceptions and the outside world\<close>

text \<open>
  The script talks to the world through library calls: \<^verbatim>\<open>subprocess\<close>, \<^verbatim>\<open>requests\<close>,
  \<^verbatim>\<open>tempfile\<close>, \<^verbatim>\<open>pathlib\<close> and \<^verbatim>\<open>os\<close>. Each of them is a field of the record
  \<open>os\<close> below, a function on an arbitrary world state \<open>'w\<close> that either raises or gives
  a value. Nothing is assumed about them, so a theorem about every \<open>os\<close> holds whatever
  git, the build and the model backends do. Console output is not modelled.
\<close>

datatype exn =
    KeyError string
  | RuntimeError string
  | CalledProcessError int string
  | ValueError string
  | AttributeError string
  | OtherError string
    \<comment> \<open>any other exception of a library call: \<^verbatim>\<open>OSError\<close>, a decoding error,
        an exception of \<^verbatim>\<open>requests\<close> or of the JSON decoder\<close>

datatype stream = Stdout | Stderr

record child =
  exit_status :: int
  written :: "(stream \<times> string) list"
    \<comment> \<open>what the child process wrote, in order, on which stream\<close>

record completed =
  returncode :: int
  stdout :: "string option"

record request =
  url :: string
  headers :: "(string \<times> string) list"
  payload_model :: string
  payload_content :: string
  payload_temperature :: string
  timeout :: nat

record response =
  status_code :: int
  error_dump :: string
    \<comment> \<open>\<^verbatim>\<open>json.dumps(err)\<close>, where \<^verbatim>\<open>err\<close> is \<^verbatim>\<open>r.json()\<close> or, when that fails,
        \<^verbatim>\<open>{"raw": r.text}\<close>\<close>
  completion :: "exn + string"
    \<comment> \<open>\<^verbatim>\<open>r.json()["choices"][0]["message"]["content"]\<close>, or what it raises\<close>

record 'w os =
  environ :: "string \<rightharpoonup> string"
  spawn :: "string \<Rightarrow> string option \<Rightarrow> 'w \<Rightarrow> (exn + child) \<times> 'w"
    \<comment> \<open>run a shell command in a working directory, to its end\<close>
  http_post :: "request \<Rightarrow> 'w \<Rightarrow> (exn + response) \<times> 'w"
  mktemp :: "string \<Rightarrow> string \<Rightarrow> 'w \<Rightarrow> (exn + string) \<times> 'w"
    \<comment> \<open>a new named temporary file with a suffix and a content; gives its name\<close>
  unlink :: "string \<Rightarrow> 'w \<Rightarrow> (exn + unit) \<times> 'w"
  write_file :: "string \<Rightarrow> string \<Rightarrow> 'w \<Rightarrow> (exn + unit) \<times> 'w"
  path_exists :: "string \<Rightarrow> 'w \<Rightarrow> bool"
  read_text :: "string \<Rightarrow> 'w \<Rightarrow> exn + string"
  resolve :: "string \<Rightarrow> string"

datatype event =
    Spawn string "string option"
  | Post request
  | TempFile string string
  | Unlink string
  | WriteFile string string
  | Query string
    \<comment> \<open>\<^verbatim>\<open>call_llm\<close> was entered with this prompt\<close>

type_synonym 'w state = "'w \<times> event list"

type_synonym ('w, 'a) prog = "'w state \<Rightarrow> (exn + 'a) \<times> 'w state"

definition ret :: "'a \<Rightarrow> ('w, 'a) prog" where
  "ret x s = (Inr x, s)"

definition raise :: "exn \<Rightarrow> ('w, 'a) prog" where
  "raise e s = (Inl e, s)"

definition bind :: "('w, 'a) prog \<Rightarrow> ('a \<Rightarrow> ('w, 'b) prog) \<Rightarrow> ('w, 'b) prog" where
  "bind m f s = (case m s of (Inl e, s') \<Rightarrow> (Inl e, s') | (Inr x, s') \<Rightarrow> f x s')"

definition catch :: "('w, 'a) prog \<Rightarrow> (exn \<Rightarrow> ('w, 'a) prog) \<Rightarrow> ('w, 'a) prog" where
  "catch m h s = (case m s of (Inl e, s') \<Rightarrow> h e s' | (Inr x, s') \<Rightarrow> (Inr x, s'))"

definition prim :: "event \<Rightarrow> ('w \<Rightarrow> (exn + 'a) \<times> 'w) \<Rightarrow> ('w, 'a) prog" where
  \<comment> \<open>a call that may change the world: it is recorded, then made\<close>
  "prim ev f s = (case f (fst s) of (r, w') \<Rightarrow> (r, (w', snd s @ [ev])))"

definition look :: "('w \<Rightarrow> 'a) \<Rightarrow> ('w, 'a) prog" where
  \<comment> \<open>a call that only reads the world\<close>
  "look f s = (Inr (f (fst s)), s)"

definition look_or_raise :: "('w \<Rightarrow> exn + 'a) \<Rightarrow> ('w, 'a) prog" where
  "look_or_raise f s = (f (fst s), s)"

definition note_event :: "event \<Rightarrow> ('w, unit) prog" where
  "note_event ev s = (Inr (), (fst s, snd s @ [ev]))"

definition is_query :: "event \<Rightarrow> bool" where
  "is_query e = (case e of Query p \<Rightarrow> True | _ \<Rightarrow> False)"

definition queries :: "event list \<Rightarrow> nat" where
  \<comment> \<open>the number of model queries in a history\<close>
  "queries evs = length (filter is_query evs)"

definition exit_code :: "exn + int \<Rightarrow> int" where
  \<comment> \<open>\<^verbatim>\<open>sys.exit(main())\<close>: an exception that nothing catches ends the process with 1\<close>
  "exit_code r = (case r of Inl e \<Rightarrow> 1 | Inr c \<Rightarrow> c)"

section \<open>Configuration\<close>

text \<open>
  \<^verbatim>\<open>
  PROVIDER = os.getenv("PROVIDER", "openai")
  OPENAI_MODEL = os.getenv("OPENAI_MODEL", "gpt-4o-mini")
  FALLBACK_PROVIDER = os.getenv("FALLBACK_PROVIDER", "llama")
  LLAMA_CPP_BIN = os.getenv("LLAMA_CPP_BIN", "llama-cli")
  LLAMA_MODEL_PATH = os.getenv("MODEL_PATH", "models/Meta-Llama-3-8B-Instruct.Q4_K_M.gguf")
  MAX_ATTEMPTS = int(os.getenv("AI_BUILDER_ATTEMPTS", "3"))
  BUILD_CMD = os.getenv("BUILD_CMD", "./gradlew assembleDebug --stacktrace")
  PROJECT_ROOT = pathlib.Path(os.getenv("PROJECT_ROOT", ".")).resolve()
  \<close>
\<close>

record config =
  PROVIDER :: string
  OPENAI_MODEL :: string
  FALLBACK_PROVIDER :: string
  LLAMA_CPP_BIN :: string
  LLAMA_MODEL_PATH :: string
  MAX_ATTEMPTS :: int
  BUILD_CMD :: string
  PROJECT_ROOT :: string

definition getenv :: "(string \<rightharpoonup> string) \<Rightarrow> string \<Rightarrow> string \<Rightarrow> string" where
  "getenv vars k dflt = (case vars k of None \<Rightarrow> dflt | Some v \<Rightarrow> v)"

definition digit_of :: "char \<Rightarrow> nat option" where
  "digit_of c =
     (let n = (of_char c :: nat) in if 48 \<le> n \<and> n \<le> 57 then Some (n - 48) else None)"

fun int_digits :: "bool \<Rightarrow> nat \<Rightarrow> string \<Rightarrow> nat option" where
  \<comment> \<open>decimal digits, where single underscores may stand between two digits;
      the flag says that the character before was a digit\<close>
  "int_digits prev acc [] = (if prev then Some acc else None)"
| "int_digits prev acc (c # cs) =
     (if c = CHR ''_'' then (if prev \<and> cs \<noteq> [] then int_digits False acc cs else None)
      else (case digit_of c of
              None \<Rightarrow> None
            | Some d \<Rightarrow> int_digits True (10 * acc + d) cs))"

definition int_isspace :: "char \<Rightarrow> bool" where
  \<comment> \<open>the blanks \<^verbatim>\<open>int()\<close> skips around a number: the ASCII ones (9-13 and 32) and,
      of the characters from 128 on, those that are spaces (133 and 160); unlike
      \<^verbatim>\<open>str.strip\<close> it does not skip 28-31\<close>
  "int_isspace c =
     (let n = (of_char c :: nat) in (9 \<le> n \<and> n \<le> 13) \<or> n = 32 \<or> n = 133 \<or> n = 160)"

definition int_strip :: "string \<Rightarrow> string" where
  "int_strip s = rev (dropWhile int_isspace (rev (dropWhile int_isspace s)))"

definition count_digits :: "string \<Rightarrow> nat" where
  "count_digits s = length (filter (\<lambda>c. digit_of c \<noteq> None) s)"

definition py_int :: "string \<Rightarrow> exn + int" where
  \<comment> \<open>\<^verbatim>\<open>int(s)\<close> of a string: blanks around, a sign, decimal digits; more than 4300
      digits are refused (the default limit of the interpreter)\<close>
  "py_int s =
     (case int_strip s of
        [] \<Rightarrow> Inl (ValueError s)
      | c # cs \<Rightarrow>
          (if 4300 < count_digits (c # cs) then Inl (ValueError s)
           else if c = CHR ''-'' then
             (case int_digits False 0 cs of None \<Rightarrow> Inl (ValueError s) | Some n \<Rightarrow> Inr (- int n))
           else if c = CHR ''+'' then
             (case int_digits False 0 cs of None \<Rightarrow> Inl (ValueError s) | Some n \<Rightarrow> Inr (int n))
           else
             (case int_digits False 0 (c # cs) of None \<Rightarrow> Inl (ValueError s) | Some n \<Rightarrow> Inr (int n))))"

definition load_config :: "'w os \<Rightarrow> exn + config" where
  "load_config os =
     (case py_int (getenv (environ os) ''AI_BUILDER_ATTEMPTS'' ''3'') of
        Inl e \<Rightarrow> Inl e
      | Inr n \<Rightarrow> Inr
          \<lparr> PROVIDER = getenv (environ os) ''PROVIDER'' ''openai'',
            OPENAI_MODEL = getenv (environ os) ''OPENAI_MODEL'' ''gpt-4o-mini'',
            FALLBACK_PROVIDER = getenv (environ os) ''FALLBACK_PROVIDER'' ''llama'',
            LLAMA_CPP_BIN = getenv (environ os) ''LLAMA_CPP_BIN'' ''llama-cli'',
            LLAMA_MODEL_PATH =
              getenv (environ os) ''MODEL_PATH'' ''models/Meta-Llama-3-8B-Instruct.Q4_K_M.gguf'',
            MAX_ATTEMPTS = n,
            BUILD_CMD = getenv (environ os) ''BUILD_CMD'' ''./gradlew assembleDebug --stacktrace'',
            PROJECT_ROOT = resolve os (getenv (environ os) ''PROJECT_ROOT'' ''.'') \<rparr>)"

definition PROMPT :: "string \<Rightarrow> string \<Rightarrow> string \<Rightarrow> string \<Rightarrow> string" where
  \<comment> \<open>\<^verbatim>\<open>PROMPT.format(repo_tree=..., recent_diff=..., build_cmd=..., build_tail=...)\<close>\<close>
  "PROMPT repo_tree recent_diff build_cmd build_tail =
     join_nl
       [''You are an automated build fixer. You are working in a Git repository.'',
        ''Goal: Fix build/test failures by editing files minimally.'',
        [],
        ''Repository file list (truncated):'',
        repo_tree,
        [],
        ''Recent changes (last few commits diff):'',
        recent_diff,
        [],
        ''Build command:'',
        build_cmd,
        [],
        ''Build log tail (last 400 lines):'',
        build_tail,
        [],
        ''Constraints:'',
        ''- Return ONLY a valid unified diff starting with ---/+++ and @@ hunks.'',
        ''- Keep edits minimal and safe.'',
        ''- If build config changes are needed (e.g., Gradle/CMake), include them in the diff.'',
        ''- Prefer updating deprecated APIs or SDK versions if that's the cause.'',
        ''- Do NOT modify unrelated files.'',
        [],
        ''Now output the unified diff to fix the error.'',
        []]"

section \<open>Process runner and context collector\<close>

text \<open>
  \<^verbatim>\<open>
  def run(cmd, cwd=PROJECT_ROOT, capture=False, check=False):
      if capture:
          return subprocess.run(cmd, cwd=cwd, shell=True, text=True,
                                stdout=subprocess.PIPE, stderr=subprocess.STDOUT, check=check)
      else:
          return subprocess.run(cmd, cwd=cwd, shell=True, check=check)

  def git(*args, capture=False):
      return run("git " + " ".join(args), capture=capture)
  \<close>
  With \<^verbatim>\<open>stdout=PIPE, stderr=STDOUT\<close> the attribute \<^verbatim>\<open>stdout\<close> of the result holds what the
  child wrote on both streams, merged and read as text, so with its line ends turned
  into LF; without capture it is \<^verbatim>\<open>None\<close>. With
  \<^verbatim>\<open>check\<close> a nonzero exit status raises \<^verbatim>\<open>CalledProcessError\<close>; without it the status
  is only stored in \<^verbatim>\<open>returncode\<close>.
\<close>

definition subprocess_run ::
  "'w os \<Rightarrow> string \<Rightarrow> string option \<Rightarrow> bool \<Rightarrow> bool \<Rightarrow> ('w, completed) prog" where
  "subprocess_run os cmd cwd capture check =
     bind (prim (Spawn cmd cwd) (spawn os cmd cwd)) (\<lambda>ch.
       if check \<and> exit_status ch \<noteq> 0 then raise (CalledProcessError (exit_status ch) cmd)
       else ret \<lparr> returncode = exit_status ch,
                  stdout =
                    (if capture then Some (universal_newlines (concat (map snd (written ch))))
                     else None) \<rparr>)"

definition run :: "'w os \<Rightarrow> config \<Rightarrow> string \<Rightarrow> bool \<Rightarrow> bool \<Rightarrow> ('w, completed) prog" where
  "run os cfg cmd capture check = subprocess_run os cmd (Some (PROJECT_ROOT cfg)) capture check"

definition git :: "'w os \<Rightarrow> config \<Rightarrow> string list \<Rightarrow> bool \<Rightarrow> ('w, completed) prog" where
  "git os cfg args capture = run os cfg (''git '' @ join_with '' '' args) capture False"

definition stdout_of :: "completed \<Rightarrow> ('w, string) prog" where
  \<comment> \<open>reading \<^verbatim>\<open>out.stdout\<close> as a string: \<^verbatim>\<open>None\<close> has no string methods\<close>
  "stdout_of out =
     (case stdout out of
        None \<Rightarrow> raise (AttributeError ''NoneType'')
      | Some t \<Rightarrow> ret t)"

text \<open>
  \<^verbatim>\<open>
  def get_repo_tree():
      out = run("git ls-files || true", capture=True)
      files = out.stdout.strip().splitlines()
      return "\n".join(files[:220])

  def get_recent_diff():
      out = run("git log --oneline -n 1 || true", capture=True)
      if out.stdout.strip() == "":
          return "(no recent commits)"
      diff = run("git diff --unified=2 -M -C HEAD~5..HEAD || true", capture=True)
      return diff.stdout[-8000:]

  def tail_build_log(lines=400):
      p = pathlib.Path("build.log")
      if not p.exists():
          return "(no build log)"
      data = p.read_text(errors="ignore").splitlines()
      return "\n".join(data[-lines:])
  \<close>
\<close>

definition get_repo_tree :: "'w os \<Rightarrow> config \<Rightarrow> ('w, string) prog" where
  "get_repo_tree os cfg =
     bind (run os cfg ''git ls-files || true'' True False) (\<lambda>out.
     bind (stdout_of out) (\<lambda>t.
       ret (join_nl (take 220 (splitlines (py_strip t))))))"

definition get_recent_diff :: "'w os \<Rightarrow> config \<Rightarrow> ('w, string) prog" where
  "get_recent_diff os cfg =
     bind (run os cfg ''git log --oneline -n 1 || true'' True False) (\<lambda>out.
     bind (stdout_of out) (\<lambda>t.
       if py_strip t = [] then ret ''(no recent commits)''
       else
         bind (run os cfg ''git diff --unified=2 -M -C HEAD~5..HEAD || true'' True False) (\<lambda>diff.
         bind (stdout_of diff) (\<lambda>d.
           ret (slice_from (- 8000) d)))))"

definition tail_build_log :: "'w os \<Rightarrow> int \<Rightarrow> ('w, string) prog" where
  "tail_build_log os lines =
     bind (look (path_exists os ''build.log'')) (\<lambda>there.
       if \<not> there then ret ''(no build log)''
       else
         bind (look_or_raise (read_text os ''build.log'')) (\<lambda>t.
           ret (join_nl (slice_from (- lines) (splitlines t)))))"

text \<open>
  \<^verbatim>\<open>
  def run_build():
      with open("build.log", "wb") as f:
          p = subprocess.Popen(BUILD_CMD, cwd=PROJECT_ROOT, shell=True,
                               stdout=subprocess.PIPE, stderr=subprocess.STDOUT)
          for line in p.stdout:
              sys.stdout.buffer.write(line)
              f.write(line)
      return p.wait()
  \<close>
  The log file is opened, and so emptied, before the build starts; the merged output of
  the build is then written to it, and the exit status is the result.
\<close>

definition run_build :: "'w os \<Rightarrow> config \<Rightarrow> ('w, int) prog" where
  "run_build os cfg =
     bind (prim (WriteFile ''build.log'' []) (write_file os ''build.log'' [])) (\<lambda>_.
     bind (prim (Spawn (BUILD_CMD cfg) (Some (PROJECT_ROOT cfg)))
             (spawn os (BUILD_CMD cfg) (Some (PROJECT_ROOT cfg)))) (\<lambda>p.
     bind (prim (WriteFile ''build.log'' (concat (map snd (written p))))
             (write_file os ''build.log'' (concat (map snd (written p))))) (\<lambda>_.
       ret (exit_status p))))"

section \<open>Model client\<close>

text \<open>
  \<^verbatim>\<open>
  def _call_openai(prompt):
      key = os.environ["OPENAI_API_KEY"]
      url = "https://api.openai.com/v1/chat/completions"
      payload = {"model": OPENAI_MODEL,
                 "messages": [{"role": "user", "content": prompt}],
                 "temperature": 0.2}
      headers = {"Authorization": f"Bearer {key}", "Content-Type": "application/json"}
      if os.getenv("OPENAI_ORG"):
          headers["OpenAI-Organization"] = os.environ["OPENAI_ORG"]
      r = requests.post(url, headers=headers, json=payload, timeout=180)
      if r.status_code >= 400:
          try:
              err = r.json()
          except Exception:
              err = {"raw": r.text}
          print("OpenAI API error:", json.dumps(err, indent=2))
          raise RuntimeError(f"openai_error:{json.dumps(err)}")
      data = r.json()
      return data["choices"][0]["message"]["content"]

  def _call_llama(prompt):
      cmd = f'{LLAMA_CPP_BIN} -m "{LLAMA_MODEL_PATH}" -p {json.dumps(prompt)} -n 2048 --temp 0.2'
      out = subprocess.run(cmd, shell=True, text=True,
                           stdout=subprocess.PIPE, stderr=subprocess.STDOUT)
      if out.returncode != 0:
          print("llama.cpp error output:\n", out.stdout)
          raise RuntimeError("llama_failed")
      return out.stdout

  def call_llm(prompt):
      if PROVIDER == "openai":
          try:
              return _call_openai(prompt)
          except RuntimeError as e:
              if "openai_error" in str(e) and FALLBACK_PROVIDER == "llama":
                  return _call_llama(prompt)
              raise
      elif PROVIDER == "llama":
          return _call_llama(prompt)
      else:
          raise RuntimeError(f"Unknown PROVIDER={PROVIDER}")
  \<close>
  The two backends are \<open>call_openai\<close> and \<open>call_llama\<close> here, without the leading
  underscore of the source.
\<close>

definition openai_request :: "'w os \<Rightarrow> config \<Rightarrow> string \<Rightarrow> string \<Rightarrow> request" where
  "openai_request os cfg key prompt =
     \<lparr> url = ''https://api.openai.com/v1/chat/completions'',
       headers =
         [(''Authorization'', ''Bearer '' @ key), (''Content-Type'', ''application/json'')]
         @ (case environ os ''OPENAI_ORG'' of
              None \<Rightarrow> []
            | Some org \<Rightarrow> if org = [] then [] else [(''OpenAI-Organization'', org)]),
       payload_model = OPENAI_MODEL cfg,
       payload_content = prompt,
       payload_temperature = ''0.2'',
       timeout = 180 \<rparr>"

definition call_openai :: "'w os \<Rightarrow> config \<Rightarrow> string \<Rightarrow> ('w, string) prog" where
  "call_openai os cfg prompt =
     (case environ os ''OPENAI_API_KEY'' of
        None \<Rightarrow> raise (KeyError ''OPENAI_API_KEY'')
      | Some key \<Rightarrow>
          bind (prim (Post (openai_request os cfg key prompt))
                  (http_post os (openai_request os cfg key prompt))) (\<lambda>r.
            if status_code r \<ge> 400 then raise (RuntimeError (''openai_error:'' @ error_dump r))
            else (case completion r of Inl e \<Rightarrow> raise e | Inr t \<Rightarrow> ret t)))"

definition llama_cmd :: "config \<Rightarrow> string \<Rightarrow> string" where
  "llama_cmd cfg prompt =
     LLAMA_CPP_BIN cfg @ '' -m '' @ [CHR 0x22] @ LLAMA_MODEL_PATH cfg @ [CHR 0x22] @ '' -p ''
       @ json_dumps prompt @ '' -n 2048 --temp 0.2''"

definition call_llama :: "'w os \<Rightarrow> config \<Rightarrow> string \<Rightarrow> ('w, string) prog" where
  "call_llama os cfg prompt =
     bind (subprocess_run os (llama_cmd cfg prompt) None True False) (\<lambda>out.
       if returncode out \<noteq> 0 then raise (RuntimeError ''llama_failed'')
       else stdout_of out)"

definition provider_error :: "exn \<Rightarrow> bool" where
  \<comment> \<open>\<^verbatim>\<open>except RuntimeError as e\<close> with \<^verbatim>\<open>"openai_error" in str(e)\<close>\<close>
  "provider_error e = (case e of RuntimeError msg \<Rightarrow> contains ''openai_error'' msg | _ \<Rightarrow> False)"

definition call_llm :: "'w os \<Rightarrow> config \<Rightarrow> string \<Rightarrow> ('w, string) prog" where
  "call_llm os cfg prompt =
     bind (note_event (Query prompt)) (\<lambda>_.
       if PROVIDER cfg = ''openai'' then
         catch (call_openai os cfg prompt) (\<lambda>e.
           if provider_error e \<and> FALLBACK_PROVIDER cfg = ''llama'' then call_llama os cfg prompt
           else raise e)
       else if PROVIDER cfg = ''llama'' then call_llama os cfg prompt
       else raise (RuntimeError (''Unknown PROVIDER='' @ PROVIDER cfg)))"

section \<open>Patch applier\<close>

text \<open>
  \<^verbatim>\<open>
  def apply_patch(diff_text):
      tmp = tempfile.NamedTemporaryFile("w", delete=False, suffix=".patch")
      tmp.write(diff_text)
      tmp.close()
      try:
          git("add", "-A")
          run("git diff --staged > .pre_ai_fix.patch || true")
          run(f"git apply --reject --whitespace=fix {tmp.name}", capture=True)
          git("add", "-A")
          run('git commit -m "ai-autobuilder: apply automatic fix" || true')
          return True
      except Exception as e:
          print("Patch apply failed:", e)
          return False
      finally:
          os.unlink(tmp.name)
  \<close>
\<close>

definition snapshot_cmd :: string where
  "snapshot_cmd = ''git diff --staged > .pre_ai_fix.patch || true''"

definition apply_cmd :: "string \<Rightarrow> string" where
  "apply_cmd name = ''git apply --reject --whitespace=fix '' @ name"

definition commit_fix_cmd :: string where
  "commit_fix_cmd =
     ''git commit -m '' @ [CHR 0x22] @ ''ai-autobuilder: apply automatic fix'' @ [CHR 0x22] @ '' || true''"

definition apply_steps :: "'w os \<Rightarrow> config \<Rightarrow> string \<Rightarrow> ('w, bool) prog" where
  \<comment> \<open>the body of the \<^verbatim>\<open>try\<close>\<close>
  "apply_steps os cfg name =
     bind (git os cfg [''add'', ''-A''] False) (\<lambda>_.
     bind (run os cfg snapshot_cmd False False) (\<lambda>_.
     bind (run os cfg (apply_cmd name) True False) (\<lambda>_.
     bind (git os cfg [''add'', ''-A''] False) (\<lambda>_.
     bind (run os cfg commit_fix_cmd False False) (\<lambda>_.
       ret True)))))"

definition apply_patch :: "'w os \<Rightarrow> config \<Rightarrow> string \<Rightarrow> ('w, bool) prog" where
  "apply_patch os cfg diff_text =
     bind (prim (TempFile ''.patch'' diff_text) (mktemp os ''.patch'' diff_text)) (\<lambda>name.
     bind (catch (apply_steps os cfg name) (\<lambda>e. ret False)) (\<lambda>result.
     bind (prim (Unlink name) (unlink os name)) (\<lambda>_.
       ret result)))"

section \<open>Fix loop controller\<close>

text \<open>
  \<^verbatim>\<open>
  def main():
      ...
      if not (PROJECT_ROOT / ".git").exists():
          run("git init")
          run('git config user.name "ai-autobuilder"')
          run('git config user.email "ai-autobuilder@local"')
          git("add", "-A")
          run('git commit -m "ai-autobuilder: initial snapshot" || true')

      code = run_build()
      if code == 0:
          return 0

      attempts = 0
      while attempts < MAX_ATTEMPTS:
          attempts += 1
          prompt = PROMPT.format(repo_tree=get_repo_tree(), recent_diff=get_recent_diff(),
                                 build_cmd=BUILD_CMD, build_tail=tail_build_log())
          llm_out = call_llm(prompt)
          diff = extract_unified_diff(llm_out)
          if not diff:
              break
          if not apply_patch(diff):
              break
          code = run_build()
          if code == 0:
              return 0

      return 1

  if __name__ == "__main__":
      sys.exit(main())
  \<close>
  One pass through the body of the loop ends in one of three ways: \<^verbatim>\<open>break\<close>,
  \<^verbatim>\<open>return\<close>, or falling through to the next test of the loop condition.
\<close>

definition path_join :: "string \<Rightarrow> string \<Rightarrow> string" where
  "path_join dir name = (if dir \<noteq> [] \<and> last dir = CHR ''/'' then dir @ name else dir @ ''/'' @ name)"

definition init_repo :: "'w os \<Rightarrow> config \<Rightarrow> ('w, unit) prog" where
  "init_repo os cfg =
     bind (look (path_exists os (path_join (PROJECT_ROOT cfg) ''.git''))) (\<lambda>there.
       if \<not> there then
         bind (run os cfg ''git init'' False False) (\<lambda>_.
         bind (run os cfg (''git config user.name '' @ [CHR 0x22] @ ''ai-autobuilder'' @ [CHR 0x22])
                 False False) (\<lambda>_.
         bind (run os cfg
                 (''git config user.email '' @ [CHR 0x22] @ ''ai-autobuilder@local'' @ [CHR 0x22])
                 False False) (\<lambda>_.
         bind (git os cfg [''add'', ''-A''] False) (\<lambda>_.
         bind (run os cfg
                 (''git commit -m '' @ [CHR 0x22] @ ''ai-autobuilder: initial snapshot'' @ [CHR 0x22]
                    @ '' || true'')
                 False False) (\<lambda>_.
           ret ())))))
       else ret ())"

definition make_prompt :: "'w os \<Rightarrow> config \<Rightarrow> ('w, string) prog" where
  "make_prompt os cfg =
     bind (get_repo_tree os cfg) (\<lambda>repo_tree.
     bind (get_recent_diff os cfg) (\<lambda>recent_diff.
     bind (tail_build_log os 400) (\<lambda>build_tail.
       ret (PROMPT repo_tree recent_diff (BUILD_CMD cfg) build_tail))))"

datatype step = Break | Return int | Continue

definition attempt :: "'w os \<Rightarrow> config \<Rightarrow> ('w, step) prog" where
  "attempt os cfg =
     bind (make_prompt os cfg) (\<lambda>prompt.
     bind (call_llm os cfg prompt) (\<lambda>llm_out.
       (case extract_unified_diff llm_out of
          None \<Rightarrow> ret Break
        | Some diff \<Rightarrow>
            if falsy (Some diff) then ret Break
            else
              bind (apply_patch os cfg diff) (\<lambda>applied.
                if \<not> applied then ret Break
                else
                  bind (run_build os cfg) (\<lambda>code.
                    if code = 0 then ret (Return 0) else ret Continue)))))"

function fix_loop :: "'w os \<Rightarrow> config \<Rightarrow> int \<Rightarrow> 'w state \<Rightarrow> (exn + int) \<times> 'w state" where
  "fix_loop os cfg attempts s =
     (if attempts < MAX_ATTEMPTS cfg then
        (case attempt os cfg s of
           (Inl e, s') \<Rightarrow> (Inl e, s')
         | (Inr Break, s') \<Rightarrow> (Inr 1, s')
         | (Inr (Return c), s') \<Rightarrow> (Inr c, s')
         | (Inr Continue, s') \<Rightarrow> fix_loop os cfg (attempts + 1) s')
      else (Inr 1, s))"
  by pat_completeness auto
termination
  by (relation "measure (\<lambda>(os, cfg, attempts, s). nat (MAX_ATTEMPTS cfg - attempts))") auto

definition main :: "'w os \<Rightarrow> config \<Rightarrow> ('w, int) prog" where
  "main os cfg =
     bind (init_repo os cfg) (\<lambda>_.
     bind (run_build os cfg) (\<lambda>code.
       if code = 0 then ret 0 else fix_loop os cfg 0))"

definition program :: "'w os \<Rightarrow> ('w, int) prog" where
  \<comment> \<open>the module from its first line: the configuration is read, then \<^verbatim>\<open>main\<close> runs\<close>
  "program os = (case load_config os of Inl e \<Rightarrow> raise e | Inr cfg \<Rightarrow> main os cfg)"

section \<open>Histories\<close>

definition new_events :: "'w state \<Rightarrow> 'w state \<Rightarrow> event list" where
  \<comment> \<open>what a call added to the history\<close>
  "new_events s s' = drop (length (snd s)) (snd s')"


definition adds :: "('w, 'a) prog \<Rightarrow> (event list \<Rightarrow> bool) \<Rightarrow> bool" where
  \<comment> \<open>whatever the outcome, the call extends the history by events that satisfy \<open>P\<close>\<close>
  "adds m P = (\<forall>s r s'. m s = (r, s') \<longrightarrow> (\<exists>evs. snd s' = snd s @ evs \<and> P evs))"

definition no_query :: "event list \<Rightarrow> bool" where
  "no_query evs = (queries evs = 0)"

definition is_spawn :: "event \<Rightarrow> bool" where
  "is_spawn e = (case e of Spawn cmd cwd \<Rightarrow> True | _ \<Rightarrow> False)"

section \<open>Scripted worlds\<close>

text \<open>
  A world without state in which every library call returns: a shell command gives the
  exit status and output that \<open>sh\<close> assigns to it, every HTTP request gets the same
  response. Concrete runs of the program are computed in such worlds.
\<close>

definition scripted :: "(string \<rightharpoonup> string) \<Rightarrow> (string \<Rightarrow> child) \<Rightarrow> response \<Rightarrow> unit os" where
  "scripted vars sh resp =
     \<lparr> environ = vars,
       spawn = (\<lambda>cmd cwd w. (Inr (sh cmd), w)),
       http_post = (\<lambda>req w. (Inr resp, w)),
       mktemp = (\<lambda>suffix content w. (Inr (''/tmp/tmp0'' @ suffix), w)),
       unlink = (\<lambda>name w. (Inr (), w)),
       write_file = (\<lambda>name content w. (Inr (), w)),
       path_exists = (\<lambda>name w. True),
       read_text = (\<lambda>name w. Inr ''FAILURE: Build failed with an exception.''),
       resolve = (\<lambda>p. ''/work'') \<rparr>"

definition quiet :: "int \<Rightarrow> child" where
  "quiet status = \<lparr> exit_status = status, written = [] \<rparr>"

definition cfg1 :: config where
  "cfg1 =
     \<lparr> PROVIDER = ''openai'', OPENAI_MODEL = ''gpt-4o-mini'', FALLBACK_PROVIDER = ''llama'',
       LLAMA_CPP_BIN = ''llama-cli'', LLAMA_MODEL_PATH = ''m.gguf'', MAX_ATTEMPTS = 3,
       BUILD_CMD = ''make'', PROJECT_ROOT = ''/work'' \<rparr>"

definition with_key :: "string \<rightharpoonup> string" where
  "with_key = [''OPENAI_API_KEY'' \<mapsto> ''sk-test'']"

definition prose_reply :: response where
  "prose_reply =
     \<lparr> status_code = 200, error_dump = [], completion = Inr ''Sorry, I cannot help with that.'' \<rparr>"

definition diff_reply :: response where
  "diff_reply =
     \<lparr> status_code = 200, error_dump = [],
       completion = Inr ''--- a/f\<newline>+++ b/f\<newline>@@ -1 +1 @@\<newline>-x\<newline>+y\<newline>'' \<rparr>"

definition quota_reply :: response where
  "quota_reply = \<lparr> status_code = 429, error_dump = ''{}'', completion = Inl (KeyError ''choices'') \<rparr>"

definition sh_build_fails :: "string \<Rightarrow> child" where
  "sh_build_fails cmd = (if cmd = ''make'' then quiet 2 else quiet 0)"

definition sh_build_ok :: "string \<Rightarrow> child" where
  "sh_build_ok cmd = quiet 0"

definition sh_reject :: "string \<Rightarrow> child" where
  \<comment> \<open>the build fails and \<^verbatim>\<open>git apply\<close> rejects the patch\<close>
  "sh_reject cmd =
     (if cmd = ''make'' then quiet 2
      else if starts_with ''git apply '' cmd then
        \<lparr> exit_status = 1, written = [(Stderr, ''error: f: No such file or directory\<newline>'')] \<rparr>
      else quiet 0)"

definition sh_no_git :: "string \<Rightarrow> child" where
  \<comment> \<open>no git: the shell reports the missing command on standard error, and \<^verbatim>\<open>|| true\<close>
      turns the status into 0\<close>
  "sh_no_git cmd =
     (if cmd = ''git ls-files || true'' then
        \<lparr> exit_status = 0, written = [(Stderr, ''/bin/sh: 1: git: not found\<newline>'')] \<rparr>
      else quiet 0)"

definition sh_llama :: "string \<Rightarrow> child" where
  "sh_llama cmd =
     (if starts_with ''llama-cli '' cmd then
        \<lparr> exit_status = 0, written = [(Stdout, ''no patch here'')] \<rparr>
      else if cmd = ''make'' then quiet 2
      else quiet 0)"

definition start :: "unit state" where
  "start = ((), [])"

definition os_negative_budget :: "unit os" where
  \<comment> \<open>\<^verbatim>\<open>AI_BUILDER_ATTEMPTS=-1 BUILD_CMD=make\<close>, and the build fails\<close>
  "os_negative_budget =
     scripted [''AI_BUILDER_ATTEMPTS'' \<mapsto> ''-1'', ''BUILD_CMD'' \<mapsto> ''make'']
       sh_build_fails prose_reply"


section \<open>Properties of the diff extractor\<close>

lemma lit_iff: "lit p s = Some r \<longleftrightarrow> s = p @ r"
  by (induction p s rule: lit.induct) auto

lemma takeWhile_nl: "NL \<notin> set l \<Longrightarrow> takeWhile (\<lambda>c. c \<noteq> NL) (l @ NL # r) = l"
  by (induction l) auto

lemma dropWhile_nl: "NL \<notin> set l \<Longrightarrow> dropWhile (\<lambda>c. c \<noteq> NL) (l @ NL # r) = NL # r"
  by (induction l) auto

lemma line_rest_split: "NL \<notin> set l \<Longrightarrow> line_rest (l @ NL # r) = (if l = [] then None else Some r)"
  by (simp add: line_rest_def takeWhile_nl dropWhile_nl)

lemma line_rest_no_nl: "NL \<notin> set l \<Longrightarrow> line_rest l = None"
proof -
  assume "NL \<notin> set l"
  then have d: "dropWhile (\<lambda>c. c \<noteq> NL) l = []" by (induction l) auto
  show ?thesis unfolding line_rest_def d by simp
qed

lemma dropWhile_nl_shape:
  "dropWhile (\<lambda>c. c \<noteq> NL) s = x # r \<Longrightarrow> x = NL \<and> s = takeWhile (\<lambda>c. c \<noteq> NL) s @ NL # r"
  by (induction s) (auto split: if_splits)

lemma line_rest_Some: "line_rest s = Some r \<Longrightarrow> \<exists>a. s = a @ NL # r \<and> a \<noteq> [] \<and> NL \<notin> set a"
proof -
  assume h: "line_rest s = Some r"
  let ?a = "takeWhile (\<lambda>c. c \<noteq> NL) s"
  from h have a: "?a \<noteq> []" by (auto simp: line_rest_def split: if_splits)
  from h obtain x where "dropWhile (\<lambda>c. c \<noteq> NL) s = x # r"
    by (auto simp: line_rest_def split: if_splits list.splits)
  then have "s = ?a @ NL # r" using dropWhile_nl_shape by blast
  moreover have "NL \<notin> set ?a" using set_takeWhileD by fastforce
  ultimately show ?thesis using a by blast
qed

lemma header_here_shape:
  "header_here s \<Longrightarrow> \<exists>a b r. s = ''--- '' @ a @ NL # ''+++ '' @ b @ NL # r \<and> a \<noteq> [] \<and> b \<noteq> []
      \<and> NL \<notin> set a \<and> NL \<notin> set b"
proof -
  assume h: "header_here s"
  then obtain s1 s2 s3 s4 where 1: "lit ''--- '' s = Some s1" and 2: "line_rest s1 = Some s2"
    and 3: "lit ''+++ '' s2 = Some s3" and 4: "line_rest s3 = Some s4"
    by (auto simp: header_here_def split: option.splits)
  from 2 obtain a where a: "s1 = a @ NL # s2" "a \<noteq> []" "NL \<notin> set a" using line_rest_Some by blast
  from 4 obtain b where b: "s3 = b @ NL # s4" "b \<noteq> []" "NL \<notin> set b" using line_rest_Some by blast
  from 1 have "s = ''--- '' @ s1" by (simp only: lit_iff)
  moreover from 3 have "s2 = ''+++ '' @ s3" by (simp only: lit_iff)
  ultimately have "s = ''--- '' @ a @ NL # ''+++ '' @ b @ NL # s4" using a b by simp
  then show ?thesis using a b by blast
qed

lemma re_search_Some:
  "re_search bol i s = Some k \<Longrightarrow> \<exists>j. k = i + j \<and> header_here (drop j s)"
proof (induction s arbitrary: bol i)
  case Nil then show ?case by simp
next
  case (Cons c cs)
  show ?case
  proof (cases "bol \<and> header_here (c # cs)")
    case True
    with Cons.prems have "k = i" by simp
    with True show ?thesis by (intro exI[of _ 0]) simp
  next
    case False
    with Cons.prems have "re_search (c = NL) (Suc i) cs = Some k" by auto
    from Cons.IH[OF this] obtain j where "k = Suc i + j" "header_here (drop j cs)" by blast
    then show ?thesis by (intro exI[of _ "Suc j"]) simp
  qed
qed


lemma lit_split:
  "NL \<notin> set p \<Longrightarrow> NL \<notin> set l \<Longrightarrow>
   lit p (l @ NL # r) = (if take (length p) l = p then Some (drop (length p) l @ NL # r) else None)"
proof (induction p arbitrary: l)
  case Nil then show ?case by simp
next
  case (Cons a p)
  then show ?case by (cases l) auto
qed

lemma lit_no_nl: "lit p l = Some r \<Longrightarrow> NL \<notin> set l \<Longrightarrow> NL \<notin> set r"
  by (auto simp: lit_iff)

lemma header_here_no_nl: "NL \<notin> set l \<Longrightarrow> \<not> header_here l"
  using header_here_shape by fastforce

lemma minus_line_alt: "minus_line l \<longleftrightarrow> take 4 l = ''--- '' \<and> drop 4 l \<noteq> []"
  by (auto simp: minus_line_def)

lemma plus_line_alt: "plus_line l \<longleftrightarrow> take 4 l = ''+++ '' \<and> drop 4 l \<noteq> []"
  by (auto simp: plus_line_def)

lemma NL_notin_minus: "NL \<notin> set ''--- ''" and NL_notin_plus: "NL \<notin> set ''+++ ''"
  by (simp_all add: NL_def)

lemma tail_header_last:
  "NL \<notin> set m \<Longrightarrow> (case lit ''+++ '' m of None \<Rightarrow> False | Some s3 \<Rightarrow> line_rest s3 \<noteq> None) = False"
  by (auto split: option.splits dest: lit_no_nl simp: line_rest_no_nl)

lemma tail_header_mid:
  assumes "NL \<notin> set m"
  shows "(case lit ''+++ '' (m @ NL # r) of None \<Rightarrow> False | Some s3 \<Rightarrow> line_rest s3 \<noteq> None) = plus_line m"
proof -
  have "lit ''+++ '' (m @ NL # r) = (if take 4 m = ''+++ '' then Some (drop 4 m @ NL # r) else None)"
    using lit_split[OF NL_notin_plus assms, of r] by (simp add: eval_nat_numeral)
  moreover have "NL \<notin> set (drop 4 m)" using assms by (meson in_set_dropD)
  ultimately show ?thesis by (simp add: plus_line_alt line_rest_split)
qed

lemma header_here_line:
  assumes "NL \<notin> set l"
  shows "header_here (l @ NL # r) =
     (minus_line l \<and> (case lit ''+++ '' r of None \<Rightarrow> False | Some s3 \<Rightarrow> line_rest s3 \<noteq> None))"
proof -
  have "lit ''--- '' (l @ NL # r) = (if take 4 l = ''--- '' then Some (drop 4 l @ NL # r) else None)"
    using lit_split[OF NL_notin_minus assms, of r] by (simp add: eval_nat_numeral)
  moreover have "NL \<notin> set (drop 4 l)" using assms by (meson in_set_dropD)
  ultimately show ?thesis by (simp add: header_here_def minus_line_alt line_rest_split)
qed

lemma re_search_line:
  "NL \<notin> set l \<Longrightarrow>
   re_search b i (l @ NL # r) =
     (if b \<and> header_here (l @ NL # r) then Some i else re_search True (i + length l + 1) r)"
proof (induction l arbitrary: b i)
  case Nil then show ?case by simp
next
  case (Cons c l)
  then have "re_search False (Suc i) (l @ NL # r) = re_search True (Suc i + length l + 1) r"
    by simp
  moreover from Cons.prems have "(c = NL) = False" by auto
  ultimately show ?case by simp
qed

lemma re_search_no_nl: "NL \<notin> set l \<Longrightarrow> re_search b i l = None"
proof (induction l arbitrary: b i)
  case Nil then show ?case by simp
next
  case (Cons c l)
  then have "\<not> header_here (c # l)" using header_here_no_nl by blast
  with Cons show ?case by simp
qed

lemma py_rstrip_keep: "\<not> py_isspace c \<Longrightarrow> py_rstrip (p @ c # q) = p @ c # py_rstrip q"
  by (simp add: py_rstrip_def dropWhile_append)


lemma split_nl_nonempty: "split_nl t \<noteq> []"
  by (induction t) (auto split: list.splits)

lemma split_nl_no_nl: "l \<in> set (split_nl t) \<Longrightarrow> NL \<notin> set l"
  by (induction t arbitrary: l) (auto split: list.splits if_splits)

lemma join_nl_Cons2: "join_nl (l # m # ls) = l @ NL # join_nl (m # ls)"
  by (simp add: join_nl_def)

lemma join_nl_single: "join_nl [l] = l"
  by (simp add: join_nl_def)

lemma join_split_nl: "join_nl (split_nl t) = t"
proof (induction t)
  case Nil then show ?case by (simp add: join_nl_def)
next
  case (Cons c t)
  obtain l ls where sp: "split_nl t = l # ls" using split_nl_nonempty by (cases "split_nl t") auto
  show ?case
  proof (cases "c = NL")
    case True
    with Cons sp show ?thesis by (simp add: join_nl_Cons2)
  next
    case False
    with Cons sp show ?thesis by (cases ls) (auto simp: join_nl_Cons2 join_nl_single)
  qed
qed

lemma header_here_lines:
  assumes "NL \<notin> set l" "NL \<notin> set m" "\<forall>x\<in>set ls. NL \<notin> set x"
  shows "header_here (join_nl (l # m # ls)) = (minus_line l \<and> plus_line m \<and> ls \<noteq> [])"
proof (cases ls)
  case Nil
  then show ?thesis
    using assms by (simp add: join_nl_Cons2 join_nl_single header_here_line tail_header_last)
next
  case (Cons n ns)
  then show ?thesis
    using assms by (simp add: join_nl_Cons2 header_here_line tail_header_mid)
qed

lemma scan_lines:
  "\<forall>l\<in>set ls. NL \<notin> set l \<Longrightarrow>
   (case re_search True i (join_nl ls) of
      None \<Rightarrow> spec_scan_terminated ls = None
    | Some k \<Rightarrow> i \<le> k \<and> spec_scan_terminated ls = Some (py_strip (drop (k - i) (join_nl ls))))"
proof (induction ls arbitrary: i rule: spec_scan_terminated.induct)
  case (1 l m ls)
  then have nl: "NL \<notin> set l" "NL \<notin> set m" "\<forall>x\<in>set ls. NL \<notin> set x" by auto
  have hh: "header_here (join_nl (l # m # ls)) = (minus_line l \<and> plus_line m \<and> ls \<noteq> [])"
    using header_here_lines[OF nl] .
  then have hh': "header_here (l @ NL # join_nl (m # ls)) = (minus_line l \<and> plus_line m \<and> ls \<noteq> [])"
    by (simp only: join_nl_Cons2)
  show ?case
  proof (cases "minus_line l \<and> plus_line m \<and> ls \<noteq> []")
    case True
    with hh' have yh: "header_here (l @ NL # join_nl (m # ls))"
      by blast
    have "re_search True i (join_nl (l # m # ls)) = Some i"
      unfolding join_nl_Cons2 re_search_line[OF nl(1)] using yh by simp
    with True show ?thesis by simp
  next
    case False
    with hh' have nh: "\<not> header_here (l @ NL # join_nl (m # ls))"
      by blast
    have rs: "re_search True i (join_nl (l # m # ls)) = re_search True (i + length l + 1) (join_nl (m # ls))"
      unfolding join_nl_Cons2 re_search_line[OF nl(1)] using nh by simp
    have ih: "case re_search True (i + length l + 1) (join_nl (m # ls)) of
        None \<Rightarrow> spec_scan_terminated (m # ls) = None
      | Some k \<Rightarrow> i + length l + 1 \<le> k \<and> spec_scan_terminated (m # ls)
           = Some (py_strip (drop (k - (i + length l + 1)) (join_nl (m # ls))))"
      using "1.IH"[OF False, of "i + length l + 1"] nl by simp
    have sk: "spec_scan_terminated (l # m # ls) = spec_scan_terminated (m # ls)"
      by (simp only: spec_scan_terminated.simps(1) False if_False)
    show ?thesis
    proof (cases "re_search True (i + length l + 1) (join_nl (m # ls))")
      case None
      with ih rs sk show ?thesis by simp
    next
      case (Some k)
      with ih have k: "i + length l + 1 \<le> k" and
        sc: "spec_scan_terminated (m # ls) = Some (py_strip (drop (k - (i + length l + 1)) (join_nl (m # ls))))"
        by auto
      from k obtain d where d: "k = i + length l + 1 + d" using le_Suc_ex by blast
      have "drop (k - i) (join_nl (l # m # ls)) = drop (k - (i + length l + 1)) (join_nl (m # ls))"
        unfolding d by (simp add: join_nl_Cons2)
      moreover from k have "i \<le> k" by simp
      ultimately show ?thesis unfolding rs sk Some sc by simp
    qed
  qed
next
  case "2_1"
  then show ?case by (simp add: join_nl_def)
next
  case "2_2"
  then show ?case by (simp add: join_nl_single re_search_no_nl)
qed

text \<open>
  Claim C5, as the code has it: the extractor returns, trimmed, the text from the first
  line \<^verbatim>\<open>--- <token>\<close> whose next line is \<^verbatim>\<open>+++ <token>\<close> and ends in a newline,
  up to the end of the input; it returns \<open>None\<close> exactly when there is no such pair of
  lines.
\<close>

theorem extract_is_first_terminated_header:
  "extract_unified_diff text = spec_extract_terminated text"
proof -
  have nl: "\<forall>l\<in>set (split_nl text). NL \<notin> set l" using split_nl_no_nl by blast
  have "case re_search True 0 text of
      None \<Rightarrow> spec_scan_terminated (split_nl text) = None
    | Some k \<Rightarrow> spec_scan_terminated (split_nl text) = Some (py_strip (drop k text))"
    using scan_lines[OF nl, of 0] by (auto simp: join_split_nl split: option.splits)
  then show ?thesis
    by (auto simp: extract_unified_diff_def spec_extract_terminated_def split: option.splits)
qed

text \<open>
  Claim C5 as the specification states it fails where the \<^verbatim>\<open>+++\<close> line is the last
  line of the input and has no newline after it: the header pair is there, and the
  extractor returns \<open>None\<close>.
\<close>

theorem extract_unterminated_header_absent:
  "extract_unified_diff ''--- a\<newline>+++ b'' = None \<and>
   spec_extract ''--- a\<newline>+++ b'' = Some ''--- a\<newline>+++ b''"
  by code_simp

lemma not_space_minus: "\<not> py_isspace (CHR ''-'')" and not_space_plus: "\<not> py_isspace (CHR ''+'')"
  by (simp_all add: py_isspace_def)

lemma strip_header:
  "\<exists>t. py_strip (''--- '' @ a @ NL # ''+++ '' @ r) = ''--- '' @ a @ NL # CHR ''+'' # t"
proof -
  have "py_lstrip (''--- '' @ a @ NL # ''+++ '' @ r) = ''--- '' @ a @ NL # ''+++ '' @ r"
    by (simp add: py_lstrip_def not_space_minus)
  moreover have "py_rstrip ((''--- '' @ a @ [NL]) @ CHR ''+'' # (''++ '' @ r))
      = (''--- '' @ a @ [NL]) @ CHR ''+'' # py_rstrip (''++ '' @ r)"
    using py_rstrip_keep[OF not_space_plus] by blast
  ultimately show ?thesis by (simp add: py_strip_def)
qed

lemma extract_result_shape:
  "extract_unified_diff text = None \<or>
   (\<exists>d. extract_unified_diff text = Some d \<and> d \<noteq> [] \<and> take 4 d = ''--- '')"
proof (cases "re_search True 0 text")
  case None
  then show ?thesis by (simp add: extract_unified_diff_def)
next
  case (Some k)
  then obtain j where "header_here (drop j text)" "k = j" using re_search_Some by fastforce
  then obtain a b r where "drop k text = ''--- '' @ a @ NL # ''+++ '' @ b @ NL # r"
    using header_here_shape by blast
  then obtain t where "py_strip (drop k text) = ''--- '' @ a @ NL # CHR ''+'' # t"
    using strip_header[of a "b @ NL # r"] by auto
  with Some show ?thesis by (simp add: extract_unified_diff_def)
qed

text \<open>
  Claim C10: the result of the extractor is \<open>None\<close> or a non-empty string that starts
  with \<^verbatim>\<open>--- \<close>, so the test \<^verbatim>\<open>not diff\<close> of the controller holds exactly when the
  result is \<open>None\<close>.
\<close>

theorem extract_absent_or_header:
  "(extract_unified_diff t = None \<or>
      (\<exists>d. extract_unified_diff t = Some d \<and> d \<noteq> [] \<and> take 4 d = ''--- ''))
   \<and> (falsy (extract_unified_diff t) \<longleftrightarrow> extract_unified_diff t = None)"
  using extract_result_shape[of t] by (auto simp: falsy_def)

section \<open>Properties of the string operations\<close>

lemma of_char_same: "of_char c = (k::nat) \<Longrightarrow> of_char c' = k \<Longrightarrow> c = c'"
  by (metis of_char_eq_iff)

lemma of_char_hex: "n < 16 \<Longrightarrow> (of_char (hex_digit n) :: nat) = (if n < 10 then 48 + n else 87 + n)"
  by (simp add: hex_digit_def)

lemma hex_digit_inj: "a < 16 \<Longrightarrow> b < 16 \<Longrightarrow> hex_digit a = hex_digit b \<Longrightarrow> a = b"
proof -
  assume a: "a < 16" and b: "b < 16" and eq: "hex_digit a = hex_digit b"
  from eq have "(of_char (hex_digit a) :: nat) = of_char (hex_digit b)" by simp
  with a b show "a = b" by (simp add: of_char_hex split: if_splits)
qed

lemma of_char_bound: "(of_char (c::char) :: nat) < 256"
  by (metis of_char_of char_of_char mod_less_divisor zero_less_numeral)

lemma hex_pair_inj:
  assumes "hex_digit (of_char c div 16) = hex_digit (of_char c' div 16)"
    and "hex_digit (of_char c mod 16) = hex_digit (of_char c' mod 16)"
  shows "c = c'"
proof -
  let ?n = "of_char c :: nat" and ?m = "of_char c' :: nat"
  have "?n div 16 < 16" "?m div 16 < 16" using of_char_bound[of c] of_char_bound[of c'] by arith+
  with assms(1) have d: "?n div 16 = ?m div 16" by (rule hex_digit_inj[rotated 2])
  have "?n mod 16 < 16" "?m mod 16 < 16" by simp_all
  with assms(2) have m: "?n mod 16 = ?m mod 16" by (rule hex_digit_inj[rotated 2])
  from d m have "?n = ?m" by (metis div_mult_mod_eq)
  then show ?thesis by simp
qed

lemma json_escape_cancel:
  "json_escape c @ r = json_escape c' @ r' \<Longrightarrow> c = c' \<and> r = r'"
  unfolding json_escape_def Let_def
  by (auto split: if_splits dest: of_char_same hex_pair_inj)

lemma json_escape_nonempty: "json_escape c \<noteq> []"
  by (simp add: json_escape_def Let_def)

lemma escaped_inj: "concat (map json_escape p) = concat (map json_escape q) \<Longrightarrow> p = q"
proof (induction p arbitrary: q)
  case Nil
  then show ?case using json_escape_nonempty by (cases q) auto
next
  case (Cons c p)
  show ?case
  proof (cases q)
    case Nil
    with Cons.prems show ?thesis using json_escape_nonempty by auto
  next
    case (Cons c' q')
    with Cons.prems have "json_escape c @ concat (map json_escape p)
        = json_escape c' @ concat (map json_escape q')" by simp
    then have "c = c'" "concat (map json_escape p) = concat (map json_escape q')"
      using json_escape_cancel by blast+
    with Cons.IH Cons show ?thesis by simp
  qed
qed

lemma json_dumps_inj: "json_dumps p = json_dumps q \<Longrightarrow> p = q"
  by (simp add: json_dumps_def escaped_inj)

lemma NL_props: "is_linebreak NL" "NL \<noteq> CR" "py_isspace NL" "py_isspace CR"
  by (simp_all add: is_linebreak_def NL_def CR_def py_isspace_def)

lemma un_keep: "c \<noteq> CR \<Longrightarrow> universal_newlines (c # r) = c # universal_newlines r"
  by (cases r) simp_all

lemma un_crlf: "universal_newlines (CR # NL # r) = NL # universal_newlines r"
  by simp

lemma un_cr: "r = [] \<or> hd r \<noteq> NL \<Longrightarrow> universal_newlines (CR # r) = NL # universal_newlines r"
  by (cases r) auto

lemma sl_break: "is_linebreak c \<Longrightarrow> c \<noteq> CR \<Longrightarrow> splitlines_acc cur (c # r) = cur # splitlines_acc [] r"
  by (cases r) simp_all

lemma sl_cr: "r = [] \<or> hd r \<noteq> NL \<Longrightarrow> splitlines_acc cur (CR # r) = cur # splitlines_acc [] r"
  by (cases r) auto

lemma sl_plain: "\<not> is_linebreak c \<Longrightarrow> c \<noteq> CR \<Longrightarrow> splitlines_acc cur (c # r) = splitlines_acc (cur @ [c]) r"
  by (cases r) simp_all

lemma splitlines_acc_un: "splitlines_acc cur (universal_newlines s) = splitlines_acc cur s"
proof (induction s arbitrary: cur rule: universal_newlines.induct)
  case 1
  then show ?case by simp
next
  case (2 c)
  then show ?case using NL_props by auto
next
  case (3 c d ds)
  show ?case
  proof (cases "c = CR")
    case True
    show ?thesis
    proof (cases "d = NL")
      case nl: True
      with True "3.IH"(1) show ?thesis by (simp add: sl_break NL_props)
    next
      case False
      with True "3.IH"(2) show ?thesis by (simp add: sl_break NL_props)
    qed
  next
    case False
    then have u: "universal_newlines (c # d # ds) = c # universal_newlines (d # ds)" by simp
    have ih: "splitlines_acc k (universal_newlines (d # ds)) = splitlines_acc k (d # ds)" for k
      using "3.IH"(3) False by simp
    show ?thesis
    proof (cases "is_linebreak c")
      case True
      have "splitlines_acc cur (c # universal_newlines (d # ds))
          = cur # splitlines_acc [] (universal_newlines (d # ds))"
        by (rule sl_break[OF True False])
      also have "\<dots> = cur # splitlines_acc [] (d # ds)" by (simp only: ih)
      also have "\<dots> = splitlines_acc cur (c # d # ds)" by (rule sl_break[OF True False, symmetric])
      finally show ?thesis by (simp only: u)
    next
      case nb: False
      have "splitlines_acc cur (c # universal_newlines (d # ds))
          = splitlines_acc (cur @ [c]) (universal_newlines (d # ds))"
        by (rule sl_plain[OF nb False])
      also have "\<dots> = splitlines_acc (cur @ [c]) (d # ds)" by (simp only: ih)
      also have "\<dots> = splitlines_acc cur (c # d # ds)" by (rule sl_plain[OF nb False, symmetric])
      finally show ?thesis by (simp only: u)
    qed
  qed
qed

lemma lstrip_un: "py_lstrip (universal_newlines s) = universal_newlines (py_lstrip s)"
  unfolding py_lstrip_def
proof (induction s rule: universal_newlines.induct)
  case 1
  then show ?case by simp
next
  case (2 c)
  then show ?case using NL_props by auto
next
  case (3 c d ds)
  then show ?case using NL_props by (auto simp: un_keep)
qed

lemma all_space_un: "list_all py_isspace (universal_newlines s) = list_all py_isspace s"
  by (induction s rule: universal_newlines.induct) (use NL_props in auto)

lemma rstrip_Cons:
  "py_rstrip (c # cs) = (if list_all py_isspace (c # cs) then [] else c # py_rstrip cs)"
  by (auto simp: py_rstrip_def dropWhile_append list_all_iff)

lemma rstrip_Nil: "py_rstrip [] = []"
  by (simp add: py_rstrip_def)

lemma rstrip_un: "py_rstrip (universal_newlines s) = universal_newlines (py_rstrip s)"
proof (induction s rule: universal_newlines.induct)
  case 1
  then show ?case by (simp add: rstrip_Nil)
next
  case (2 c)
  then show ?case using NL_props by (auto simp: rstrip_Cons rstrip_Nil)
next
  case (3 c d ds)
  show ?case
  proof (cases "c = CR")
    case True
    show ?thesis
    proof (cases "d = NL")
      case nl: True
      with True "3.IH"(1) show ?thesis
        using NL_props all_space_un[of ds] by (simp add: rstrip_Cons)
    next
      case False
      with True "3.IH"(2) show ?thesis
        using NL_props all_space_un[of "d # ds"] by (simp add: rstrip_Cons un_cr)
    qed
  next
    case False
    with "3.IH"(3) show ?thesis
      using all_space_un[of "d # ds"] by (simp add: rstrip_Cons un_keep)
  qed
qed

lemma strip_un: "py_strip (universal_newlines s) = universal_newlines (py_strip s)"
  by (simp add: py_strip_def lstrip_un rstrip_un)

lemma file_list_un:
  "splitlines (py_strip (universal_newlines s)) = splitlines (py_strip s)"
  by (simp add: strip_un splitlines_def splitlines_acc_un)

section \<open>Histories of the operations\<close>

lemma bind_ret [simp]: "bind (ret x) f = f x"
  by (rule ext) (simp add: bind_def ret_def)

lemma bind_raise [simp]: "bind (raise e) f = raise e"
  by (rule ext) (simp add: bind_def raise_def)

lemma addsI: "(\<And>s r s'. m s = (r, s') \<Longrightarrow> \<exists>evs. snd s' = snd s @ evs \<and> P evs) \<Longrightarrow> adds m P"
  unfolding adds_def by blast

lemma addsD: "adds m P \<Longrightarrow> m s = (r, s') \<Longrightarrow> \<exists>evs. snd s' = snd s @ evs \<and> P evs"
  unfolding adds_def by blast


lemma adds_ret: "P [] \<Longrightarrow> adds (ret x) P"
  by (auto simp: adds_def ret_def)

lemma adds_raise: "P [] \<Longrightarrow> adds (raise e) P"
  by (auto simp: adds_def raise_def)

lemma adds_look: "P [] \<Longrightarrow> adds (look f) P"
  by (auto simp: adds_def look_def)

lemma adds_look_or_raise: "P [] \<Longrightarrow> adds (look_or_raise f) P"
  by (auto simp: adds_def look_or_raise_def)

lemma adds_prim: "P [ev] \<Longrightarrow> adds (prim ev f) P"
  by (auto simp: adds_def prim_def split: prod.splits)

lemma adds_note: "P [ev] \<Longrightarrow> adds (note_event ev) P"
  by (auto simp: adds_def note_event_def)

lemma adds_bind:
  assumes m: "adds m P" and f: "\<And>x. adds (f x) Q"
    and stop: "\<And>a. P a \<Longrightarrow> R a" and go: "\<And>a b. P a \<Longrightarrow> Q b \<Longrightarrow> R (a @ b)"
  shows "adds (bind m f) R"
proof (rule addsI)
  fix s r s'
  assume run: "bind m f s = (r, s')"
  obtain r1 s1 where m1: "m s = (r1, s1)" by (cases "m s")
  from addsD[OF m m1] obtain a where a: "snd s1 = snd s @ a" "P a" by blast
  show "\<exists>evs. snd s' = snd s @ evs \<and> R evs"
  proof (cases r1)
    case (Inl e)
    with run m1 have "s' = s1" by (simp add: bind_def)
    with a stop show ?thesis by blast
  next
    case (Inr x)
    with run m1 have "f x s1 = (r, s')" by (simp add: bind_def)
    from addsD[OF f this] obtain b where b: "snd s' = snd s1 @ b" "Q b" by blast
    with a have "snd s' = snd s @ (a @ b)" by simp
    with a b go show ?thesis by blast
  qed
qed

lemma adds_catch:
  assumes m: "adds m P" and h: "\<And>e. adds (h e) Q"
    and stop: "\<And>a. P a \<Longrightarrow> R a" and go: "\<And>a b. P a \<Longrightarrow> Q b \<Longrightarrow> R (a @ b)"
  shows "adds (catch m h) R"
proof (rule addsI)
  fix s r s'
  assume run: "catch m h s = (r, s')"
  obtain r1 s1 where m1: "m s = (r1, s1)" by (cases "m s")
  from addsD[OF m m1] obtain a where a: "snd s1 = snd s @ a" "P a" by blast
  show "\<exists>evs. snd s' = snd s @ evs \<and> R evs"
  proof (cases r1)
    case (Inr x)
    with run m1 have "s' = s1" by (simp add: catch_def)
    with a stop show ?thesis by blast
  next
    case (Inl e)
    with run m1 have "h e s1 = (r, s')" by (simp add: catch_def)
    from addsD[OF h this] obtain b where b: "snd s' = snd s1 @ b" "Q b" by blast
    with a have "snd s' = snd s @ (a @ b)" by simp
    with a b go show ?thesis by blast
  qed
qed

lemma no_query_Nil: "no_query []"
  by (simp add: no_query_def queries_def)

lemma no_query_append: "no_query a \<Longrightarrow> no_query b \<Longrightarrow> no_query (a @ b)"
  by (simp add: no_query_def queries_def)

lemma no_query_single: "\<not> is_query ev \<Longrightarrow> no_query [ev]"
  by (simp add: no_query_def queries_def)

lemma queries_append: "queries (a @ b) = queries a + queries b"
  by (simp add: queries_def)

lemma quiet_bind: "adds m no_query \<Longrightarrow> (\<And>x. adds (f x) no_query) \<Longrightarrow> adds (bind m f) no_query"
  by (rule adds_bind[where P = no_query and Q = no_query]) (auto intro: no_query_append)

lemma quiet_catch: "adds m no_query \<Longrightarrow> (\<And>e. adds (h e) no_query) \<Longrightarrow> adds (catch m h) no_query"
  by (rule adds_catch[where P = no_query and Q = no_query]) (auto intro: no_query_append)

lemma quiet_ret: "adds (ret x) no_query" and quiet_raise: "adds (raise e) no_query"
  and quiet_look: "adds (look f) no_query" and quiet_look_or_raise: "adds (look_or_raise g) no_query"
  by (simp_all add: adds_ret adds_raise adds_look adds_look_or_raise no_query_Nil)

lemma quiet_spawn: "adds (prim (Spawn cmd cwd) f) no_query"
  and quiet_post: "adds (prim (Post req) g) no_query"
  and quiet_tempfile: "adds (prim (TempFile a b) h) no_query"
  and quiet_unlink: "adds (prim (Unlink n) k) no_query"
  and quiet_write: "adds (prim (WriteFile n c) l) no_query"
  by (simp_all add: adds_prim no_query_single is_query_def)

lemmas quiet_intros = quiet_bind quiet_catch quiet_ret quiet_raise quiet_look quiet_look_or_raise
  quiet_spawn quiet_post quiet_tempfile quiet_unlink quiet_write

lemma quiet_subprocess_run: "adds (subprocess_run os cmd cwd capture check) no_query"
  unfolding subprocess_run_def by (intro quiet_intros) (simp add: quiet_intros)

lemma quiet_run: "adds (run os cfg cmd capture check) no_query"
  unfolding run_def by (rule quiet_subprocess_run)

lemma quiet_git: "adds (git os cfg args capture) no_query"
  unfolding git_def by (rule quiet_run)

lemma quiet_stdout_of: "adds (stdout_of out) no_query"
  unfolding stdout_of_def by (simp add: quiet_intros split: option.splits)

lemma quiet_get_repo_tree: "adds (get_repo_tree os cfg) no_query"
  unfolding get_repo_tree_def by (intro quiet_intros quiet_run quiet_stdout_of)

lemma quiet_get_recent_diff: "adds (get_recent_diff os cfg) no_query"
  unfolding get_recent_diff_def
  by (intro quiet_bind quiet_run quiet_stdout_of) (simp add: quiet_intros quiet_run quiet_stdout_of)

lemma quiet_tail_build_log: "adds (tail_build_log os n) no_query"
  unfolding tail_build_log_def
  by (intro quiet_bind quiet_look) (simp add: quiet_intros)

lemma quiet_make_prompt: "adds (make_prompt os cfg) no_query"
  unfolding make_prompt_def
  by (intro quiet_intros quiet_get_repo_tree quiet_get_recent_diff quiet_tail_build_log)

lemma quiet_run_build: "adds (run_build os cfg) no_query"
  unfolding run_build_def by (intro quiet_intros)

lemma quiet_init_repo: "adds (init_repo os cfg) no_query"
  unfolding init_repo_def
  by (intro quiet_bind quiet_look) (simp add: quiet_intros quiet_run quiet_git)

lemma quiet_apply_steps: "adds (apply_steps os cfg name) no_query"
  unfolding apply_steps_def by (intro quiet_intros quiet_run quiet_git)

lemma quiet_apply_patch: "adds (apply_patch os cfg d) no_query"
  unfolding apply_patch_def by (intro quiet_intros quiet_apply_steps)

lemma quiet_call_openai: "adds (call_openai os cfg prompt) no_query"
  unfolding call_openai_def
  by (auto split: option.splits sum.splits intro!: quiet_intros)

lemma quiet_call_llama: "adds (call_llama os cfg prompt) no_query"
  unfolding call_llama_def
  by (intro quiet_bind quiet_subprocess_run) (simp add: quiet_intros quiet_stdout_of)

lemma one_query_call_llm: "adds (call_llm os cfg prompt) (\<lambda>evs. queries evs = 1)"
  unfolding call_llm_def
proof (rule adds_bind[where P = "\<lambda>evs. evs = [Query prompt]" and Q = no_query])
  show "adds (note_event (Query prompt)) (\<lambda>evs. evs = [Query prompt])"
    by (simp add: adds_note)
next
  fix x :: unit
  show "adds (if PROVIDER cfg = ''openai'' then
         catch (call_openai os cfg prompt) (\<lambda>e.
           if provider_error e \<and> FALLBACK_PROVIDER cfg = ''llama'' then call_llama os cfg prompt
           else raise e)
       else if PROVIDER cfg = ''llama'' then call_llama os cfg prompt
       else raise (RuntimeError (''Unknown PROVIDER='' @ PROVIDER cfg))) no_query"
    by (simp add: quiet_intros quiet_call_openai quiet_call_llama)
next
  fix a assume "a = [Query prompt]"
  then show "queries a = 1" by (simp add: queries_def is_query_def)
next
  fix a b assume "a = [Query prompt]" "no_query b"
  then show "queries (a @ b) = 1" by (simp add: queries_def is_query_def no_query_def)
qed

lemma attempt_queries: "adds (attempt os cfg) (\<lambda>evs. queries evs \<le> 1)"
  unfolding attempt_def
proof (rule adds_bind[where P = no_query and Q = "\<lambda>evs. queries evs \<le> 1"])
  show "adds (make_prompt os cfg) no_query" by (rule quiet_make_prompt)
next
  fix prompt
  show "adds (bind (call_llm os cfg prompt) (\<lambda>llm_out.
       (case extract_unified_diff llm_out of
          None \<Rightarrow> ret Break
        | Some diff \<Rightarrow>
            if falsy (Some diff) then ret Break
            else
              bind (apply_patch os cfg diff) (\<lambda>applied.
                if \<not> applied then ret Break
                else
                  bind (run_build os cfg) (\<lambda>code.
                    if code = 0 then ret (Return 0) else ret Continue))))) (\<lambda>evs. queries evs \<le> 1)"
  proof (rule adds_bind[where P = "\<lambda>evs. queries evs = 1" and Q = no_query])
    show "adds (call_llm os cfg prompt) (\<lambda>evs. queries evs = 1)" by (rule one_query_call_llm)
  next
    fix llm_out
    show "adds (case extract_unified_diff llm_out of
          None \<Rightarrow> ret Break
        | Some diff \<Rightarrow>
            if falsy (Some diff) then ret Break
            else
              bind (apply_patch os cfg diff) (\<lambda>applied.
                if \<not> applied then ret Break
                else
                  bind (run_build os cfg) (\<lambda>code.
                    if code = 0 then ret (Return 0) else ret Continue))) no_query"
      by (auto split: option.splits intro!: quiet_intros quiet_apply_patch quiet_run_build)
  qed (simp_all add: queries_append no_query_def)
qed (simp_all add: queries_append no_query_def)

lemma fix_loop_queries:
  "fix_loop os cfg attempts s = (r, s') \<Longrightarrow>
   \<exists>evs. snd s' = snd s @ evs \<and> int (queries evs) \<le> max 0 (MAX_ATTEMPTS cfg - attempts)"
proof (induction os cfg attempts s rule: fix_loop.induct)
  case (1 os cfg attempts s)
  show ?case
  proof (cases "attempts < MAX_ATTEMPTS cfg")
    case False
    with "1.prems" have "s' = s" by simp
    then show ?thesis by (simp add: queries_def)
  next
    case True
    obtain r1 s1 where a1: "attempt os cfg s = (r1, s1)" by (cases "attempt os cfg s")
    from addsD[OF attempt_queries a1] obtain a where a: "snd s1 = snd s @ a" "queries a \<le> 1"
      by blast
    show ?thesis
    proof (cases "r1 = Inr Continue")
      case False
      with "1.prems" True a1 have "s' = s1"
        by (auto split: sum.splits step.splits)
      with a True show ?thesis by (intro exI[of _ a]) simp
    next
      case c: True
      with "1.prems" True a1 have "fix_loop os cfg (attempts + 1) s1 = (r, s')" by simp
      from "1.IH"[OF True a1[symmetric] _ _ this] c
      obtain b where b: "snd s' = snd s1 @ b"
        "int (queries b) \<le> max 0 (MAX_ATTEMPTS cfg - (attempts + 1))" by auto
      with a True show ?thesis by (intro exI[of _ "a @ b"]) (simp add: queries_append)
    qed
  qed
qed

lemma main_queries:
  "adds (main os cfg) (\<lambda>evs. int (queries evs) \<le> max 0 (MAX_ATTEMPTS cfg))"
  unfolding main_def
proof (rule adds_bind[where P = no_query and Q = "\<lambda>evs. int (queries evs) \<le> max 0 (MAX_ATTEMPTS cfg)"])
  show "adds (init_repo os cfg) no_query" by (rule quiet_init_repo)
next
  fix u :: unit
  show "adds (bind (run_build os cfg) (\<lambda>code. if code = 0 then ret 0 else fix_loop os cfg 0))
     (\<lambda>evs. int (queries evs) \<le> max 0 (MAX_ATTEMPTS cfg))"
  proof (rule adds_bind[where P = no_query and Q = "\<lambda>evs. int (queries evs) \<le> max 0 (MAX_ATTEMPTS cfg)"])
    show "adds (run_build os cfg) no_query" by (rule quiet_run_build)
  next
    fix code :: int
    have "adds (fix_loop os cfg 0) (\<lambda>evs. int (queries evs) \<le> max 0 (MAX_ATTEMPTS cfg))"
      by (rule addsI) (use fix_loop_queries[of os cfg 0] in auto)
    then show "adds (if code = 0 then ret 0 else fix_loop os cfg 0)
      (\<lambda>evs. int (queries evs) \<le> max 0 (MAX_ATTEMPTS cfg))"
      by (simp add: adds_ret queries_def)
  qed (simp_all add: queries_append no_query_def)
qed (simp_all add: queries_append no_query_def)

lemma new_events_append: "snd s' = snd s @ evs \<Longrightarrow> new_events s s' = evs"
  by (simp add: new_events_def)

lemma run_result:
  assumes "\<not> isl (fst (m s))"
  obtains x s' where "m s = (Inr x, s')"
  using assms by (metis prod.collapse sum.collapse(2))

section \<open>Properties of the fix loop\<close>

text \<open>
  Claim C1: in a run in which the first build fails and the model answers the first
  query with a text that holds no diff header, \<^verbatim>\<open>main\<close> returns 1 right after that
  answer, whatever the attempt budget \<open>k \<ge> 1\<close> is: the history holds exactly one model
  query, and the process exits with code 1. The run is one in which the set-up of the
  repository and the collection of the prompt context themselves return.
\<close>

theorem fail_fast_on_malformed_response:
  assumes init: "init_repo os cfg s0 = (Inr u, s1)"
    and build: "run_build os cfg s1 = (Inr code, s2)" and fails: "code \<noteq> 0"
    and ctx: "make_prompt os cfg s2 = (Inr prompt, s3)"
    and reply: "call_llm os cfg prompt s3 = (Inr llm_out, s4)"
    and malformed: "extract_unified_diff llm_out = None"
    and budget: "1 \<le> MAX_ATTEMPTS cfg"
  shows "main os cfg s0 = (Inr 1, s4) \<and> exit_code (fst (main os cfg s0)) = 1
         \<and> queries (new_events s0 s4) = 1"
proof -
  have att: "attempt os cfg s2 = (Inr Break, s4)"
    by (simp add: attempt_def bind_def ctx reply malformed ret_def)
  have loop: "fix_loop os cfg 0 s2 = (Inr 1, s4)"
    using budget att by (subst fix_loop.simps) simp
  have m: "main os cfg s0 = (Inr 1, s4)"
    using fails loop by (simp add: main_def bind_def init build)
  from addsD[OF quiet_init_repo init] obtain a where a: "snd s1 = snd s0 @ a" "no_query a" by blast
  from addsD[OF quiet_run_build build] obtain b where b: "snd s2 = snd s1 @ b" "no_query b" by blast
  from addsD[OF quiet_make_prompt ctx] obtain c where c: "snd s3 = snd s2 @ c" "no_query c" by blast
  from addsD[OF one_query_call_llm reply] obtain d where d: "snd s4 = snd s3 @ d" "queries d = 1"
    by blast
  have "snd s4 = snd s0 @ (a @ b @ c @ d)" using a b c d by simp
  then have "new_events s0 s4 = a @ b @ c @ d" by (rule new_events_append)
  then have "queries (new_events s0 s4) = 1"
    using a b c d by (simp add: queries_append no_query_def)
  with m show ?thesis by (simp add: exit_code_def)
qed

theorem fail_fast_on_malformed_response_witness:
  "fst (main (scripted with_key sh_build_fails prose_reply) cfg1 start) = Inr 1
   \<and> queries (snd (snd (main (scripted with_key sh_build_fails prose_reply) cfg1 start))) = 1"
proof -
  let ?os = "scripted with_key sh_build_fails prose_reply"
  have "\<not> isl (fst (init_repo ?os cfg1 start))" by code_simp
  then obtain u s1 where 1: "init_repo ?os cfg1 start = (Inr u, s1)" by (rule run_result)
  have "fst (run_build ?os cfg1 (snd (init_repo ?os cfg1 start))) = Inr 2" by code_simp
  with 1 obtain s2 where 2: "run_build ?os cfg1 s1 = (Inr 2, s2)" by (metis prod.collapse snd_conv)
  have "\<not> isl (fst (make_prompt ?os cfg1 (snd (run_build ?os cfg1 (snd (init_repo ?os cfg1 start))))))"
    by code_simp
  with 1 2 obtain prompt s3 where 3: "make_prompt ?os cfg1 s2 = (Inr prompt, s3)"
    by (metis run_result snd_conv)
  have "fst (call_llm ?os cfg1 p s) = Inr ''Sorry, I cannot help with that.''" for p s
    by (simp add: call_llm_def call_openai_def scripted_def with_key_def cfg1_def prose_reply_def
        bind_def note_event_def catch_def prim_def ret_def)
  then obtain s4 where 4: "call_llm ?os cfg1 prompt s3 = (Inr ''Sorry, I cannot help with that.'', s4)"
    by (metis prod.collapse)
  have 5: "extract_unified_diff ''Sorry, I cannot help with that.'' = None" by code_simp
  have 6: "1 \<le> MAX_ATTEMPTS cfg1" by (simp add: cfg1_def)
  have 7: "(2::int) \<noteq> 0" by simp
  from fail_fast_on_malformed_response[OF 1 2 7 3 4 5 6]
  have "main ?os cfg1 start = (Inr 1, s4)" "queries (new_events start s4) = 1" by simp_all
  then show ?thesis by (simp add: new_events_def start_def)
qed

text \<open>
  Claim C2: when the first build returns 0, \<^verbatim>\<open>main\<close> returns 0 right after it, so the
  process exits with code 0, and the history holds no model query.
\<close>

theorem green_build_needs_no_query:
  assumes init: "init_repo os cfg s0 = (Inr u, s1)"
    and build: "run_build os cfg s1 = (Inr 0, s2)"
  shows "main os cfg s0 = (Inr 0, s2) \<and> exit_code (fst (main os cfg s0)) = 0
         \<and> queries (new_events s0 s2) = 0"
proof -
  have m: "main os cfg s0 = (Inr 0, s2)"
    by (simp add: main_def bind_def init build ret_def)
  from addsD[OF quiet_init_repo init] obtain a where a: "snd s1 = snd s0 @ a" "no_query a" by blast
  from addsD[OF quiet_run_build build] obtain b where b: "snd s2 = snd s1 @ b" "no_query b" by blast
  have "snd s2 = snd s0 @ (a @ b)" using a b by simp
  then have "new_events s0 s2 = a @ b" by (rule new_events_append)
  then have "queries (new_events s0 s2) = 0"
    using a b by (simp add: queries_append no_query_def)
  with m show ?thesis by (simp add: exit_code_def)
qed

theorem green_build_needs_no_query_witness:
  "fst (main (scripted with_key sh_build_ok prose_reply) cfg1 start) = Inr 0
   \<and> queries (snd (snd (main (scripted with_key sh_build_ok prose_reply) cfg1 start))) = 0"
proof -
  let ?os = "scripted with_key sh_build_ok prose_reply"
  have "\<not> isl (fst (init_repo ?os cfg1 start))" by code_simp
  then obtain u s1 where 1: "init_repo ?os cfg1 start = (Inr u, s1)" by (rule run_result)
  have "fst (run_build ?os cfg1 (snd (init_repo ?os cfg1 start))) = Inr 0" by code_simp
  with 1 obtain s2 where 2: "run_build ?os cfg1 s1 = (Inr 0, s2)" by (metis prod.collapse snd_conv)
  from green_build_needs_no_query[OF 1 2]
  have "main ?os cfg1 start = (Inr 0, s2)" "queries (new_events start s2) = 0" by simp_all
  then show ?thesis by (simp add: new_events_def start_def)
qed

text \<open>
  Claim C8, as the code has it: a run of \<^verbatim>\<open>main\<close> makes at most \<open>max 0 MAX_ATTEMPTS\<close>
  model queries, that is at most \<^verbatim>\<open>MAX_ATTEMPTS\<close> whenever the budget is not negative,
  and \<^verbatim>\<open>MAX_ATTEMPTS\<close> is 3 when \<^verbatim>\<open>AI_BUILDER_ATTEMPTS\<close> is not set.
\<close>

theorem queries_bounded_by_budget:
  "(main os cfg s = (r, s') \<longrightarrow> int (queries (new_events s s')) \<le> max 0 (MAX_ATTEMPTS cfg))
   \<and> (environ os ''AI_BUILDER_ATTEMPTS'' = None \<longrightarrow> map_sum id MAX_ATTEMPTS (load_config os) = Inr 3)"
proof
  show "main os cfg s = (r, s') \<longrightarrow> int (queries (new_events s s')) \<le> max 0 (MAX_ATTEMPTS cfg)"
    using addsD[OF main_queries] new_events_append by metis
next
  have "py_int ''3'' = Inr 3" by code_simp
  then show "environ os ''AI_BUILDER_ATTEMPTS'' = None \<longrightarrow> map_sum id MAX_ATTEMPTS (load_config os) = Inr 3"
    by (simp add: load_config_def getenv_def)
qed

theorem queries_bounded_by_budget_witness:
  "int (queries (snd (snd (main (scripted with_key sh_build_fails prose_reply) cfg1 start)))) \<le> 3
   \<and> map_sum id MAX_ATTEMPTS (load_config (scripted with_key sh_build_fails prose_reply)) = Inr 3"
proof -
  let ?os = "scripted with_key sh_build_fails prose_reply"
  have 1: "main ?os cfg1 start = (fst (main ?os cfg1 start), snd (main ?os cfg1 start))" by simp
  have 2: "environ ?os ''AI_BUILDER_ATTEMPTS'' = None" by (simp add: scripted_def with_key_def)
  from queries_bounded_by_budget[of ?os cfg1 start "fst (main ?os cfg1 start)" "snd (main ?os cfg1 start)"] 1 2
  have "int (queries (new_events start (snd (main ?os cfg1 start)))) \<le> max 0 (MAX_ATTEMPTS cfg1)"
    and "map_sum id MAX_ATTEMPTS (load_config ?os) = Inr 3" by blast+
  then show ?thesis by (simp add: new_events_def start_def cfg1_def)
qed

text \<open>
  With \<^verbatim>\<open>AI_BUILDER_ATTEMPTS=-1\<close> the budget is \<open>-1\<close>; the run makes no query, and
  0 is not at most \<open>-1\<close>.
\<close>

theorem negative_budget_exceeded:
  "map_sum id MAX_ATTEMPTS (load_config os_negative_budget) = Inr (- 1)
   \<and> fst (program os_negative_budget start) = Inr 1
   \<and> \<not> int (queries (new_events start (snd (program os_negative_budget start)))) \<le> - 1"
  by code_simp

section \<open>Properties of the model client\<close>

lemma contains_prefix: "contains ''openai_error'' (''openai_error:'' @ x)"
  by simp

text \<open>
  Claim C6: with the primary backend configured, a credential present, an HTTP answer
  of status 400 or more and the fallback \<^verbatim>\<open>llama\<close> configured, \<^verbatim>\<open>call_llm\<close> starts exactly
  one process after the one HTTP request: the command line
  \<^verbatim>\<open>LLAMA_CPP_BIN -m "MODEL_PATH" -p <json.dumps(prompt)> -n 2048 --temp 0.2\<close>, whose
  \<^verbatim>\<open>-p\<close> argument is written from the prompt of the query and from no other text.
  Its result is that of the process: the exception of starting it, \<^verbatim>\<open>llama_failed\<close> on
  a nonzero exit status, its output otherwise.
\<close>

theorem provider_error_falls_back_once:
  assumes primary: "PROVIDER cfg = ''openai''"
    and fallback: "FALLBACK_PROVIDER cfg = ''llama''"
    and key: "environ os ''OPENAI_API_KEY'' = Some key"
    and post: "http_post os (openai_request os cfg key prompt) (fst s) = (Inr r, w)"
    and status: "400 \<le> status_code r"
    and after: "call_llm os cfg prompt s = (res, s')"
  shows "\<exists>cmd.
           cmd = LLAMA_CPP_BIN cfg @ '' -m '' @ [CHR 0x22] @ LLAMA_MODEL_PATH cfg @ [CHR 0x22]
                   @ '' -p '' @ json_dumps prompt @ '' -n 2048 --temp 0.2''
         \<and> (\<forall>p. json_dumps p = json_dumps prompt \<longrightarrow> p = prompt)
         \<and> new_events s s' =
             [Query prompt, Post (openai_request os cfg key prompt), Spawn cmd None]
         \<and> payload_content (openai_request os cfg key prompt) = prompt
         \<and> (case spawn os cmd None w of
               (Inl e, w') \<Rightarrow> res = Inl e \<and> fst s' = w'
             | (Inr ch, w') \<Rightarrow>
                 fst s' = w'
                 \<and> res = (if exit_status ch \<noteq> 0 then Inl (RuntimeError ''llama_failed'')
                          else Inr (universal_newlines (concat (map snd (written ch))))))
         \<and> call_llama os cfg prompt
               (w, snd s @ [Query prompt, Post (openai_request os cfg key prompt)]) = (res, s')"
proof -
  let ?req = "openai_request os cfg key prompt"
  let ?s1 = "(w, snd s @ [Query prompt, Post ?req])"
  define cmd where "cmd = llama_cmd cfg prompt"
  define msg where "msg = ''openai_error:'' @ error_dump r"
  have op: "call_openai os cfg prompt (fst s, snd s @ [Query prompt]) = (Inl (RuntimeError msg), ?s1)"
    using status by (simp add: call_openai_def key bind_def prim_def post raise_def msg_def)
  have pe: "provider_error (RuntimeError msg)"
    unfolding provider_error_def msg_def using contains_prefix by simp
  have "call_llm os cfg prompt s = call_llama os cfg prompt ?s1"
    by (simp add: call_llm_def bind_def note_event_def primary catch_def op pe fallback)
  with after have ll: "call_llama os cfg prompt ?s1 = (res, s')" by simp
  obtain out w' where sp: "spawn os cmd None w = (out, w')" by (cases "spawn os cmd None w")
  from ll sp have hist: "snd s' = snd ?s1 @ [Spawn cmd None]" and world: "fst s' = w'"
    and result: "res = (case out of Inl e \<Rightarrow> Inl e
        | Inr ch \<Rightarrow> if exit_status ch \<noteq> 0 then Inl (RuntimeError ''llama_failed'')
                   else Inr (universal_newlines (concat (map snd (written ch)))))"
    by (auto simp: call_llama_def subprocess_run_def bind_def prim_def ret_def raise_def stdout_of_def
        cmd_def split: sum.splits if_splits)
  from hist have ev: "new_events s s' = [Query prompt, Post ?req, Spawn cmd None]"
    by (simp add: new_events_def)
  have outcome: "(case spawn os cmd None w of
               (Inl e, w') \<Rightarrow> res = Inl e \<and> fst s' = w'
             | (Inr ch, w') \<Rightarrow>
                 fst s' = w'
                 \<and> res = (if exit_status ch \<noteq> 0 then Inl (RuntimeError ''llama_failed'')
                          else Inr (universal_newlines (concat (map snd (written ch))))))"
    using sp world result by (cases out) simp_all
  have literal: "cmd = LLAMA_CPP_BIN cfg @ '' -m '' @ [CHR 0x22] @ LLAMA_MODEL_PATH cfg @ [CHR 0x22]
                   @ '' -p '' @ json_dumps prompt @ '' -n 2048 --temp 0.2''"
    by (simp add: cmd_def llama_cmd_def)
  have content: "payload_content ?req = prompt" by (simp add: openai_request_def)
  have pin: "\<forall>p. json_dumps p = json_dumps prompt \<longrightarrow> p = prompt"
    using json_dumps_inj by blast
  show ?thesis
    by (intro exI[of _ cmd] conjI) (rule literal pin ev content outcome ll)+
qed

theorem provider_error_falls_back_once_witness:
  "fst (call_llm (scripted with_key sh_llama quota_reply) cfg1 ''fix it'' start) = Inr ''no patch here''
   \<and> filter is_spawn (snd (snd (call_llm (scripted with_key sh_llama quota_reply) cfg1 ''fix it'' start)))
       = [Spawn (''llama-cli -m '' @ [CHR 0x22] @ ''m.gguf'' @ [CHR 0x22] @ '' -p '' @ [CHR 0x22]
                  @ ''fix it'' @ [CHR 0x22] @ '' -n 2048 --temp 0.2'') None]"
proof -
  let ?os = "scripted with_key sh_llama quota_reply"
  obtain res s' where run: "call_llm ?os cfg1 ''fix it'' start = (res, s')"
    by (cases "call_llm ?os cfg1 ''fix it'' start")
  have 1: "PROVIDER cfg1 = ''openai''" and 2: "FALLBACK_PROVIDER cfg1 = ''llama''"
    by (simp_all add: cfg1_def)
  have 3: "environ ?os ''OPENAI_API_KEY'' = Some ''sk-test''"
    by (simp add: scripted_def with_key_def)
  have 4: "http_post ?os (openai_request ?os cfg1 ''sk-test'' ''fix it'') (fst start) = (Inr quota_reply, ())"
    by (simp add: scripted_def)
  have 5: "400 \<le> status_code quota_reply" by (simp add: quota_reply_def)
  from provider_error_falls_back_once[OF 1 2 3 4 5 run] obtain cmd where
    cmd: "cmd = LLAMA_CPP_BIN cfg1 @ '' -m '' @ [CHR 0x22] @ LLAMA_MODEL_PATH cfg1 @ [CHR 0x22]
                   @ '' -p '' @ json_dumps ''fix it'' @ '' -n 2048 --temp 0.2''"
    and ev: "new_events start s' =
        [Query ''fix it'', Post (openai_request ?os cfg1 ''sk-test'' ''fix it''), Spawn cmd None]"
    and outcome: "(case spawn ?os cmd None () of
               (Inl e, w') \<Rightarrow> res = Inl e \<and> fst s' = w'
             | (Inr ch, w') \<Rightarrow>
                 fst s' = w'
                 \<and> res = (if exit_status ch \<noteq> 0 then Inl (RuntimeError ''llama_failed'')
                          else Inr (universal_newlines (concat (map snd (written ch))))))"
    by (elim exE conjE) (rule that)
  have dumps: "json_dumps ''fix it'' = [CHR 0x22] @ ''fix it'' @ [CHR 0x22]" by code_simp
  have cmd': "cmd = ''llama-cli -m '' @ [CHR 0x22] @ ''m.gguf'' @ [CHR 0x22] @ '' -p '' @ [CHR 0x22]
                  @ ''fix it'' @ [CHR 0x22] @ '' -n 2048 --temp 0.2''"
    unfolding cmd dumps by (simp add: cfg1_def)
  have "spawn ?os cmd None () = (Inr \<lparr> exit_status = 0, written = [(Stdout, ''no patch here'')] \<rparr>, ())"
    unfolding cmd' by (simp add: scripted_def sh_llama_def)
  moreover have "universal_newlines ''no patch here'' = ''no patch here''" by code_simp
  ultimately have "res = Inr ''no patch here''"
    using outcome by (simp del: universal_newlines.simps)
  with run ev cmd' show ?thesis by (simp add: new_events_def start_def is_spawn_def)
qed

lemma call_openai_events:
  "adds (call_openai os cfg prompt) (\<lambda>evs. \<forall>e\<in>set evs. \<not> is_spawn e)"
  unfolding call_openai_def
  by (auto split: option.splits sum.splits simp: is_spawn_def
      intro!: adds_raise adds_bind[where P = "\<lambda>evs. \<forall>e\<in>set evs. \<not> is_spawn e"
                 and Q = "\<lambda>evs. evs = []"] adds_prim adds_ret)

lemma missing_credential:
  "environ os ''OPENAI_API_KEY'' = None \<Longrightarrow>
   call_openai os cfg prompt s = (Inl (KeyError ''OPENAI_API_KEY''), s)"
  by (simp add: call_openai_def raise_def)

text \<open>
  Claim C7: when the primary call ends in an exception that is not the
  \<^verbatim>\<open>openai_error\<close> of the HTTP status check, \<^verbatim>\<open>call_llm\<close> ends in that same exception
  in the state the primary call left, and no process was started, so the fallback
  backend was not invoked. A missing \<^verbatim>\<open>OPENAI_API_KEY\<close> is such a case: the
  \<^verbatim>\<open>KeyError\<close> leaves \<^verbatim>\<open>call_llm\<close> before any request is made.
\<close>

theorem other_error_propagates_without_fallback:
  assumes primary: "PROVIDER cfg = ''openai''"
  shows "(\<forall>e s'. call_openai os cfg prompt (fst s, snd s @ [Query prompt]) = (Inl e, s')
              \<and> \<not> provider_error e
            \<longrightarrow> call_llm os cfg prompt s = (Inl e, s') \<and> filter is_spawn (new_events s s') = [])
         \<and> (environ os ''OPENAI_API_KEY'' = None
            \<longrightarrow> call_llm os cfg prompt s
                  = (Inl (KeyError ''OPENAI_API_KEY''), (fst s, snd s @ [Query prompt])))"
proof -
  have general: "call_llm os cfg prompt s = (Inl e, s') \<and> filter is_spawn (new_events s s') = []"
    if fails: "call_openai os cfg prompt (fst s, snd s @ [Query prompt]) = (Inl e, s')"
      and other: "\<not> provider_error e" for e s'
  proof -
    have res: "call_llm os cfg prompt s = (Inl e, s')"
      by (simp add: call_llm_def bind_def note_event_def primary catch_def fails other raise_def)
    from addsD[OF call_openai_events fails] obtain evs where
      evs: "snd s' = snd s @ [Query prompt] @ evs" "\<forall>e\<in>set evs. \<not> is_spawn e" by auto
    then have "new_events s s' = Query prompt # evs" by (simp add: new_events_def)
    with evs have "filter is_spawn (new_events s s') = []" by (simp add: is_spawn_def)
    with res show ?thesis by simp
  qed
  have "\<not> provider_error (KeyError ''OPENAI_API_KEY'')" by (simp add: provider_error_def)
  with general missing_credential show ?thesis by blast
qed

theorem other_error_propagates_without_fallback_witness:
  "call_llm (scripted Map.empty sh_llama quota_reply) cfg1 ''fix it'' start
     = (Inl (KeyError ''OPENAI_API_KEY''), ((), [Query ''fix it'']))
   \<and> filter is_spawn
        (snd (snd (call_llm (scripted Map.empty sh_llama quota_reply) cfg1 ''fix it'' start))) = []"
proof -
  let ?os = "scripted Map.empty sh_llama quota_reply"
  have 1: "PROVIDER cfg1 = ''openai''" by (simp add: cfg1_def)
  have 2: "call_openai ?os cfg1 ''fix it'' (fst start, snd start @ [Query ''fix it''])
      = (Inl (KeyError ''OPENAI_API_KEY''), ((), [Query ''fix it'']))"
    by (simp add: call_openai_def scripted_def raise_def start_def)
  have 3: "\<not> provider_error (KeyError ''OPENAI_API_KEY'')" by (simp add: provider_error_def)
  have 4: "environ ?os ''OPENAI_API_KEY'' = None" by (simp add: scripted_def)
  from other_error_propagates_without_fallback[OF 1, of ?os "''fix it''" start] 2 3 4
  have "call_llm ?os cfg1 ''fix it'' start = (Inl (KeyError ''OPENAI_API_KEY''), ((), [Query ''fix it'']))"
    and "filter is_spawn (new_events start ((), [Query ''fix it''])) = []"
    by (simp_all add: start_def)
  then show ?thesis by (simp add: new_events_def start_def)
qed

section \<open>Properties of the patch applier\<close>










text \<open>
  Claim C3 at a diff that git rejects: \<^verbatim>\<open>git apply\<close> exits with status 1, \<^verbatim>\<open>run\<close> is
  called without \<^verbatim>\<open>check\<close> and raises nothing, so \<^verbatim>\<open>apply_patch\<close> returns \<^verbatim>\<open>True\<close>;
  the controller rebuilds and goes on to the next attempt, three queries in all with
  a budget of 3, where the claim has it stop after the first.
\<close>

theorem rejected_patch_counts_as_applied:
  "exit_status (sh_reject (apply_cmd ''/tmp/tmp0.patch'')) = 1
   \<and> fst (apply_patch (scripted with_key sh_reject diff_reply) cfg1 ''--- a/f\<newline>+++ b/f'' start) = Inr True
   \<and> fst (main (scripted with_key sh_reject diff_reply) cfg1 start) = Inr 1
   \<and> queries (snd (snd (main (scripted with_key sh_reject diff_reply) cfg1 start))) = 3"
  by code_simp

section \<open>Properties of the context collector\<close>

lemma linebreak_is_space: "is_linebreak c \<Longrightarrow> py_isspace c"
  by (auto simp: is_linebreak_def py_isspace_def Let_def)

lemma CR_is_space: "py_isspace CR"
  by (simp add: py_isspace_def CR_def)

lemma splitlines_acc_head:
  "cur \<noteq> [] \<Longrightarrow> \<exists>l ls. splitlines_acc cur s = l # ls \<and> l \<noteq> []"
  by (induction cur s rule: splitlines_acc.induct) auto

lemma splitlines_head:
  assumes "\<not> py_isspace c"
  shows "\<exists>l ls. splitlines (c # cs) = l # ls \<and> l \<noteq> []"
proof -
  from assms have nb: "c \<noteq> CR" "\<not> is_linebreak c"
    using CR_is_space linebreak_is_space by auto
  show ?thesis
  proof (cases cs)
    case Nil
    with nb show ?thesis by (simp add: splitlines_def)
  next
    case (Cons d ds)
    with nb have "splitlines (c # cs) = splitlines_acc [c] (d # ds)" by (simp add: splitlines_def)
    then show ?thesis using splitlines_acc_head[of "[c]" "d # ds"] by simp
  qed
qed

lemma join_nl_head: "l \<noteq> [] \<Longrightarrow> join_nl (l # ls) \<noteq> []"
  by (cases ls) (simp_all add: join_nl_def)

lemma lstrip_head: "py_lstrip x \<noteq> [] \<Longrightarrow> \<not> py_isspace (hd (py_lstrip x))"
  unfolding py_lstrip_def using hd_dropWhile[of py_isspace x] by blast

lemma lstrip_Nil_iff: "py_lstrip x = [] \<longleftrightarrow> list_all py_isspace x"
  unfolding py_lstrip_def by (simp add: list_all_iff)

lemma py_strip_cases:
  "(py_strip x = [] \<and> list_all py_isspace x) \<or>
   (\<exists>c cs. py_strip x = c # cs \<and> \<not> py_isspace c \<and> \<not> list_all py_isspace x)"
proof (cases "py_lstrip x")
  case Nil
  then show ?thesis using lstrip_Nil_iff[of x] by (simp add: py_strip_def py_rstrip_def)
next
  case (Cons c ys)
  then have c: "\<not> py_isspace c" using lstrip_head[of x] by simp
  have "py_strip x = py_rstrip ([] @ c # ys)" by (simp add: py_strip_def Cons)
  also have "\<dots> = c # py_rstrip ys" using py_rstrip_keep[OF c, of "[]" ys] by simp
  finally have "py_strip x = c # py_rstrip ys" .
  moreover from Cons have "\<not> list_all py_isspace x" using lstrip_Nil_iff[of x] by simp
  ultimately show ?thesis using c by blast
qed

lemma file_list_Nil_iff:
  "join_nl (take 220 (splitlines (py_strip x))) = [] \<longleftrightarrow> list_all py_isspace x"
proof -
  consider (blank) "py_strip x = []" "list_all py_isspace x"
    | (inked) c cs where "py_strip x = c # cs" "\<not> py_isspace c" "\<not> list_all py_isspace x"
    using py_strip_cases[of x] by blast
  then show ?thesis
  proof cases
    case blank
    then show ?thesis by (simp add: splitlines_def join_nl_def)
  next
    case inked
    from splitlines_head[OF inked(2), of cs] obtain l ls where "splitlines (c # cs) = l # ls" "l \<noteq> []"
      by blast
    with inked(1) have "join_nl (take 220 (splitlines (py_strip x))) \<noteq> []"
      by (simp add: join_nl_head eval_nat_numeral)
    with inked(3) show ?thesis by simp
  qed
qed

text \<open>
  Claim C9, as the code has it: whatever the exit status of the listing command,
  \<^verbatim>\<open>get_repo_tree\<close> returns, and the file list is made of the first 220 lines of what
  the command wrote on standard output and standard error together; it is empty
  exactly when the command wrote nothing but blanks.
\<close>

theorem repo_tree_is_merged_output:
  assumes "spawn os ''git ls-files || true'' (Some (PROJECT_ROOT cfg)) (fst s) = (Inr ch, w)"
  shows "\<exists>t. get_repo_tree os cfg s
           = (Inr t, (w, snd s @ [Spawn ''git ls-files || true'' (Some (PROJECT_ROOT cfg))]))
         \<and> t = join_nl (take 220 (splitlines (py_strip (concat (map snd (written ch))))))
         \<and> (t = [] \<longleftrightarrow> list_all py_isspace (concat (map snd (written ch))))"
proof -
  have "get_repo_tree os cfg s
      = (Inr (join_nl (take 220 (splitlines (py_strip (concat (map snd (written ch))))))),
         (w, snd s @ [Spawn ''git ls-files || true'' (Some (PROJECT_ROOT cfg))]))"
    by (simp add: get_repo_tree_def run_def subprocess_run_def bind_def prim_def assms ret_def
        stdout_of_def file_list_un)
  then show ?thesis using file_list_Nil_iff by blast
qed

theorem repo_tree_is_merged_output_witness:
  "fst (get_repo_tree (scripted with_key sh_build_ok prose_reply) cfg1 start) = Inr []"
proof -
  let ?os = "scripted with_key sh_build_ok prose_reply"
  have "spawn ?os ''git ls-files || true'' (Some (PROJECT_ROOT cfg1)) (fst start) = (Inr (quiet 0), ())"
    by (simp add: scripted_def sh_build_ok_def)
  from repo_tree_is_merged_output[OF this]
  show ?thesis by (auto simp: quiet_def)
qed

text \<open>
  Without git the shell writes its complaint on standard error, which the capture
  merges into the output: the file list of the prompt is that line, not empty.
\<close>

theorem repo_tree_carries_error_text:
  "fst (get_repo_tree (scripted with_key sh_no_git prose_reply) cfg1 start)
     = Inr ''/bin/sh: 1: git: not found''"
  by code_simp

end
